theory Spec2Isabelle
  imports Main "HOL-Library.Word"
begin

unbundle bit_operations_syntax

text \<open>
  A model of the AES class of \<open>AES.cpp\<close>: finite field arithmetic, key expansion, the
  round transforms and their inverses, \<open>Cipher\<close> and \<open>Decipher\<close>, and the constructor
  with its reading of hexadecimal text. Bytes are 8-bit words and schedule words 32-bit
  words; the State is a 4 by 4 array of bytes; an exception is a result \<open>Inl\<close>.
\<close>

section \<open>Machine types and errors\<close>

type_synonym u8 = "8 word"
type_synonym u32 = "32 word"

text \<open>
  The code raises nothing of its own. What can leave a function early are the two exceptions
  of the C++ library, \<open>out_of_range\<close> (from \<open>vector::at\<close> and \<open>stoi\<close>) and
  \<open>invalid_argument\<close> (from \<open>stoi\<close>), and the one unchecked read, \<open>Rcon[...]\<close>, whose
  behaviour outside the vector is undefined and is kept apart as \<open>UncheckedIndex\<close>.
\<close>

datatype error =
    OutOfRange
  | InvalidArgument
  | UncheckedIndex

text \<open>\<open>vector::at(n)\<close>: the \<open>int\<close> index is converted to \<open>size_t\<close>, so a negative one
  is out of range as well.\<close>

definition vec_at :: "'a list \<Rightarrow> int \<Rightarrow> error + 'a" where
  "vec_at xs n = (if 0 \<le> n \<and> n < int (length xs) then Inr (xs ! nat n) else Inl OutOfRange)"

text \<open>\<open>vector::operator[]\<close>: unchecked; a read outside the vector is undefined and is
  kept apart as \<open>UncheckedIndex\<close>.\<close>

definition vec_index :: "'a list \<Rightarrow> int \<Rightarrow> error + 'a" where
  "vec_index xs n = (if 0 \<le> n \<and> n < int (length xs) then Inr (xs ! nat n) else Inl UncheckedIndex)"

section \<open>Finite field arithmetic\<close>

definition ffAdd :: "u8 \<Rightarrow> u8 \<Rightarrow> u8" where
  "ffAdd a b = a XOR b"

definition xtime :: "u8 \<Rightarrow> u8" where
  "xtime byte =
     (let result = push_bit 1 byte
      in if byte AND 0x80 \<noteq> 0 then result XOR 0x1b else result)"

text \<open>One pass of the loop body of \<open>ffMultiply\<close> on the triple \<open>(a, b, sum)\<close>.\<close>

definition ffMultiply_step :: "nat \<Rightarrow> u8 \<times> u8 \<times> u8 \<Rightarrow> u8 \<times> u8 \<times> u8" where
  "ffMultiply_step i = (\<lambda>(a, b, sum).
     let sum' = (if a AND 0x1 \<noteq> 0 then sum XOR b else sum)
     in if i < 7 then (drop_bit 1 a, xtime b, sum') else (a, b, sum'))"

definition ffMultiply :: "u8 \<Rightarrow> u8 \<Rightarrow> u8" where
  "ffMultiply a b = snd (snd (fold ffMultiply_step [0..<8] (a, b, 0)))"

section \<open>Substitution tables\<close>

text \<open>
  Modelled from the spec: the two 256-entry tables \<open>SBox\<close> and \<open>InvSBox\<close> are members
  declared in \<open>AES.h\<close>, which is not among the sources. The specification fixes them as the
  standard AES values (section 4.2), which are written out here.
\<close>

definition SBox :: "u8 list" where
  "SBox = [
     0x63, 0x7c, 0x77, 0x7b, 0xf2, 0x6b, 0x6f, 0xc5, 0x30, 0x01, 0x67, 0x2b, 0xfe, 0xd7, 0xab, 0x76,
     0xca, 0x82, 0xc9, 0x7d, 0xfa, 0x59, 0x47, 0xf0, 0xad, 0xd4, 0xa2, 0xaf, 0x9c, 0xa4, 0x72, 0xc0,
     0xb7, 0xfd, 0x93, 0x26, 0x36, 0x3f, 0xf7, 0xcc, 0x34, 0xa5, 0xe5, 0xf1, 0x71, 0xd8, 0x31, 0x15,
     0x04, 0xc7, 0x23, 0xc3, 0x18, 0x96, 0x05, 0x9a, 0x07, 0x12, 0x80, 0xe2, 0xeb, 0x27, 0xb2, 0x75,
     0x09, 0x83, 0x2c, 0x1a, 0x1b, 0x6e, 0x5a, 0xa0, 0x52, 0x3b, 0xd6, 0xb3, 0x29, 0xe3, 0x2f, 0x84,
     0x53, 0xd1, 0x00, 0xed, 0x20, 0xfc, 0xb1, 0x5b, 0x6a, 0xcb, 0xbe, 0x39, 0x4a, 0x4c, 0x58, 0xcf,
     0xd0, 0xef, 0xaa, 0xfb, 0x43, 0x4d, 0x33, 0x85, 0x45, 0xf9, 0x02, 0x7f, 0x50, 0x3c, 0x9f, 0xa8,
     0x51, 0xa3, 0x40, 0x8f, 0x92, 0x9d, 0x38, 0xf5, 0xbc, 0xb6, 0xda, 0x21, 0x10, 0xff, 0xf3, 0xd2,
     0xcd, 0x0c, 0x13, 0xec, 0x5f, 0x97, 0x44, 0x17, 0xc4, 0xa7, 0x7e, 0x3d, 0x64, 0x5d, 0x19, 0x73,
     0x60, 0x81, 0x4f, 0xdc, 0x22, 0x2a, 0x90, 0x88, 0x46, 0xee, 0xb8, 0x14, 0xde, 0x5e, 0x0b, 0xdb,
     0xe0, 0x32, 0x3a, 0x0a, 0x49, 0x06, 0x24, 0x5c, 0xc2, 0xd3, 0xac, 0x62, 0x91, 0x95, 0xe4, 0x79,
     0xe7, 0xc8, 0x37, 0x6d, 0x8d, 0xd5, 0x4e, 0xa9, 0x6c, 0x56, 0xf4, 0xea, 0x65, 0x7a, 0xae, 0x08,
     0xba, 0x78, 0x25, 0x2e, 0x1c, 0xa6, 0xb4, 0xc6, 0xe8, 0xdd, 0x74, 0x1f, 0x4b, 0xbd, 0x8b, 0x8a,
     0x70, 0x3e, 0xb5, 0x66, 0x48, 0x03, 0xf6, 0x0e, 0x61, 0x35, 0x57, 0xb9, 0x86, 0xc1, 0x1d, 0x9e,
     0xe1, 0xf8, 0x98, 0x11, 0x69, 0xd9, 0x8e, 0x94, 0x9b, 0x1e, 0x87, 0xe9, 0xce, 0x55, 0x28, 0xdf,
     0x8c, 0xa1, 0x89, 0x0d, 0xbf, 0xe6, 0x42, 0x68, 0x41, 0x99, 0x2d, 0x0f, 0xb0, 0x54, 0xbb, 0x16
  ]"

definition InvSBox :: "u8 list" where
  "InvSBox = [
     0x52, 0x09, 0x6a, 0xd5, 0x30, 0x36, 0xa5, 0x38, 0xbf, 0x40, 0xa3, 0x9e, 0x81, 0xf3, 0xd7, 0xfb,
     0x7c, 0xe3, 0x39, 0x82, 0x9b, 0x2f, 0xff, 0x87, 0x34, 0x8e, 0x43, 0x44, 0xc4, 0xde, 0xe9, 0xcb,
     0x54, 0x7b, 0x94, 0x32, 0xa6, 0xc2, 0x23, 0x3d, 0xee, 0x4c, 0x95, 0x0b, 0x42, 0xfa, 0xc3, 0x4e,
     0x08, 0x2e, 0xa1, 0x66, 0x28, 0xd9, 0x24, 0xb2, 0x76, 0x5b, 0xa2, 0x49, 0x6d, 0x8b, 0xd1, 0x25,
     0x72, 0xf8, 0xf6, 0x64, 0x86, 0x68, 0x98, 0x16, 0xd4, 0xa4, 0x5c, 0xcc, 0x5d, 0x65, 0xb6, 0x92,
     0x6c, 0x70, 0x48, 0x50, 0xfd, 0xed, 0xb9, 0xda, 0x5e, 0x15, 0x46, 0x57, 0xa7, 0x8d, 0x9d, 0x84,
     0x90, 0xd8, 0xab, 0x00, 0x8c, 0xbc, 0xd3, 0x0a, 0xf7, 0xe4, 0x58, 0x05, 0xb8, 0xb3, 0x45, 0x06,
     0xd0, 0x2c, 0x1e, 0x8f, 0xca, 0x3f, 0x0f, 0x02, 0xc1, 0xaf, 0xbd, 0x03, 0x01, 0x13, 0x8a, 0x6b,
     0x3a, 0x91, 0x11, 0x41, 0x4f, 0x67, 0xdc, 0xea, 0x97, 0xf2, 0xcf, 0xce, 0xf0, 0xb4, 0xe6, 0x73,
     0x96, 0xac, 0x74, 0x22, 0xe7, 0xad, 0x35, 0x85, 0xe2, 0xf9, 0x37, 0xe8, 0x1c, 0x75, 0xdf, 0x6e,
     0x47, 0xf1, 0x1a, 0x71, 0x1d, 0x29, 0xc5, 0x89, 0x6f, 0xb7, 0x62, 0x0e, 0xaa, 0x18, 0xbe, 0x1b,
     0xfc, 0x56, 0x3e, 0x4b, 0xc6, 0xd2, 0x79, 0x20, 0x9a, 0xdb, 0xc0, 0xfe, 0x78, 0xcd, 0x5a, 0xf4,
     0x1f, 0xdd, 0xa8, 0x33, 0x88, 0x07, 0xc7, 0x31, 0xb1, 0x12, 0x10, 0x59, 0x27, 0x80, 0xec, 0x5f,
     0x60, 0x51, 0x7f, 0xa9, 0x19, 0xb5, 0x4a, 0x0d, 0x2d, 0xe5, 0x7a, 0x9f, 0x93, 0xc9, 0x9c, 0xef,
     0xa0, 0xe0, 0x3b, 0x4d, 0xae, 0x2a, 0xf5, 0xb0, 0xc8, 0xeb, 0xbb, 0x3c, 0x83, 0x53, 0x99, 0x61,
     0x17, 0x2b, 0x04, 0x7e, 0xba, 0x77, 0xd6, 0x26, 0xe1, 0x69, 0x14, 0x63, 0x55, 0x21, 0x0c, 0x7d
  ]"

definition sBoxSub :: "u8 \<Rightarrow> u8" where
  "sBoxSub byte =
     (let row = unat (drop_bit 4 byte AND 0xF);
          col = unat (byte AND 0xF)
      in SBox ! (row * 16 + col))"

definition InvsBoxSub :: "u8 \<Rightarrow> u8" where
  "InvsBoxSub byte =
     (let row = unat (drop_bit 4 byte AND 0xF);
          col = unat (byte AND 0xF)
      in InvSBox ! (row * 16 + col))"


section \<open>Sequencing of fallible steps\<close>

definition ebind :: "error + 'a \<Rightarrow> ('a \<Rightarrow> error + 'b) \<Rightarrow> error + 'b" where
  "ebind m f = (case m of Inl e \<Rightarrow> Inl e | Inr x \<Rightarrow> f x)"

text \<open>A counted loop whose body may raise: the first exception ends the loop.\<close>

fun for_each :: "nat list \<Rightarrow> (nat \<Rightarrow> 's \<Rightarrow> error + 's) \<Rightarrow> 's \<Rightarrow> error + 's" where
  "for_each [] f s = Inr s"
| "for_each (i # rest) f s = ebind (f i s) (for_each rest f)"

section \<open>Words and the State array\<close>

text \<open>The packing of four bytes into a 32-bit word and the four extractions, which the
  code writes out at every use.\<close>

definition pack :: "u8 \<Rightarrow> u8 \<Rightarrow> u8 \<Rightarrow> u8 \<Rightarrow> u32" where
  "pack b0 b1 b2 b3 =
     push_bit 24 (ucast b0) OR push_bit 16 (ucast b1) OR push_bit 8 (ucast b2) OR ucast b3"

definition byte0 :: "u32 \<Rightarrow> u8" where "byte0 x = ucast (drop_bit 24 x AND 0xFF)"
definition byte1 :: "u32 \<Rightarrow> u8" where "byte1 x = ucast (drop_bit 16 x AND 0xFF)"
definition byte2 :: "u32 \<Rightarrow> u8" where "byte2 x = ucast (drop_bit 8 x AND 0xFF)"
definition byte3 :: "u32 \<Rightarrow> u8" where "byte3 x = ucast (x AND 0xFF)"

text \<open>\<open>uint8_t state[4][4]\<close>: four rows of four bytes, read and written as
  \<open>state[r][c]\<close>. Every index the code uses is below 4 (the loops run to 4, or to \<open>Nb\<close>,
  which is 4 in every constructed object); \<open>get\<close> and \<open>put\<close> treat a larger index, which
  would leave the array, as 3, and nothing below depends on that.\<close>

datatype row = Row u8 u8 u8 u8
datatype grid = Grid row row row row

fun row_get :: "row \<Rightarrow> nat \<Rightarrow> u8" where
  "row_get (Row a b c d) j = (if j = 0 then a else if j = 1 then b else if j = 2 then c else d)"

fun row_set :: "row \<Rightarrow> nat \<Rightarrow> u8 \<Rightarrow> row" where
  "row_set (Row a b c d) j v =
     (if j = 0 then Row v b c d else if j = 1 then Row a v c d
      else if j = 2 then Row a b v d else Row a b c v)"

fun get :: "grid \<Rightarrow> nat \<Rightarrow> nat \<Rightarrow> u8" where
  "get (Grid r0 r1 r2 r3) i j =
     row_get (if i = 0 then r0 else if i = 1 then r1 else if i = 2 then r2 else r3) j"

fun put :: "grid \<Rightarrow> nat \<Rightarrow> nat \<Rightarrow> u8 \<Rightarrow> grid" where
  "put (Grid r0 r1 r2 r3) i j v =
     (if i = 0 then Grid (row_set r0 j v) r1 r2 r3
      else if i = 1 then Grid r0 (row_set r1 j v) r2 r3
      else if i = 2 then Grid r0 r1 (row_set r2 j v) r3
      else Grid r0 r1 r2 (row_set r3 j v))"

text \<open>The column \<open>i\<close> of the State as a word, and the word written back into it.\<close>

definition column_word :: "grid \<Rightarrow> nat \<Rightarrow> u32" where
  "column_word st i = pack (get st 0 i) (get st 1 i) (get st 2 i) (get st 3 i)"

definition put_column :: "grid \<Rightarrow> nat \<Rightarrow> u32 \<Rightarrow> grid" where
  "put_column st i word =
     (let s0 = byte0 word; s1 = byte1 word; s2 = byte2 word; s3 = byte3 word
      in put (put (put (put st 0 i s0) 1 i s1) 2 i s2) 3 i s3)"

section \<open>The cipher object\<close>

text \<open>The members of the class that the code writes. The two tables are constants and stay
  outside. The three \<open>int\<close> members are unbounded integers here: in every constructed object
  they are at most 14, and the loop counters stay below 60.\<close>

record aes =
  state :: grid
  key :: "u8 list"
  w :: "u32 list"
  Rcon :: "u32 list"
  Nk :: int
  Nr :: int
  Nb :: int

section \<open>Key expansion\<close>

definition rotWord :: "u32 \<Rightarrow> u32" where
  "rotWord word =
     (let b0 = byte0 word; b1 = byte1 word; b2 = byte2 word; b3 = byte3 word
      in pack b1 b2 b3 b0)"

definition subWord :: "u32 \<Rightarrow> u32" where
  "subWord word =
     (let b0 = byte0 word; b1 = byte1 word; b2 = byte2 word; b3 = byte3 word
      in pack (sBoxSub b0) (sBoxSub b1) (sBoxSub b2) (sBoxSub b3))"

text \<open>The first loop of \<open>KeyExpansion\<close>: the key bytes, four to a word.\<close>

function KeyExpansion_load :: "int \<Rightarrow> int \<Rightarrow> u8 list \<Rightarrow> u32 list \<Rightarrow> error + u32 list" where
  "KeyExpansion_load i nk k ws =
     (if i < nk then
        ebind (vec_at k (4 * i)) (\<lambda>k0.
        ebind (vec_at k (4 * i + 1)) (\<lambda>k1.
        ebind (vec_at k (4 * i + 2)) (\<lambda>k2.
        ebind (vec_at k (4 * i + 3)) (\<lambda>k3.
          KeyExpansion_load (i + 1) nk k (ws @ [pack k0 k1 k2 k3])))))
      else Inr ws)"
  by pat_completeness auto
termination
  by (relation "measure (\<lambda>(i, nk, k, ws). nat (nk - i))") auto

declare KeyExpansion_load.simps [simp del]

text \<open>The second loop. \<open>i % Nk\<close> and \<open>i / Nk\<close> are reached only after \<open>w.at(i-1)\<close> has
  returned, hence with \<open>0 < Nk \<le> i\<close>, where C++ and HOL division agree.\<close>

function KeyExpansion_expand :: "int \<Rightarrow> int \<Rightarrow> int \<Rightarrow> u32 list \<Rightarrow> u32 list \<Rightarrow> error + u32 list" where
  "KeyExpansion_expand i bound nk rcon ws =
     (if i < bound then
        ebind (vec_at ws (i - 1)) (\<lambda>temp0.
        ebind (if i mod nk = 0
               then ebind (vec_index rcon (i div nk - 1)) (\<lambda>rc. Inr (subWord (rotWord temp0) XOR rc))
               else if nk > 6 \<and> i mod nk = 4 then Inr (subWord temp0)
               else Inr temp0) (\<lambda>temp.
        ebind (vec_at ws (i - nk)) (\<lambda>prev.
          KeyExpansion_expand (i + 1) bound nk rcon (ws @ [prev XOR temp]))))
      else Inr ws)"
  by pat_completeness auto
termination
  by (relation "measure (\<lambda>(i, bound, nk, rcon, ws). nat (bound - i))") auto

declare KeyExpansion_expand.simps [simp del]

definition KeyExpansion :: "u8 list \<Rightarrow> u32 list \<Rightarrow> int \<Rightarrow> aes \<Rightarrow> error + aes" where
  "KeyExpansion k ws nk this =
     ebind (KeyExpansion_load 0 nk k ws) (\<lambda>ws1.
     ebind (KeyExpansion_expand nk (Nb this * (Nr this + 1)) nk (Rcon this) ws1) (\<lambda>ws2.
       Inr (this\<lparr>w := ws2\<rparr>)))"

function initRcon_loop :: "int \<Rightarrow> int \<Rightarrow> u8 \<Rightarrow> u32 list \<Rightarrow> u32 list" where
  "initRcon_loop i nr rvalue rcon =
     (if i < nr then
        (let rword = push_bit 24 (ucast rvalue :: u32)
         in initRcon_loop (i + 1) nr (xtime rvalue) (rcon @ [rword]))
      else rcon)"
  by pat_completeness auto
termination
  by (relation "measure (\<lambda>(i, nr, rvalue, rcon). nat (nr - i))") auto

declare initRcon_loop.simps [simp del]

definition initRcon :: "int \<Rightarrow> aes \<Rightarrow> aes" where
  "initRcon nr this = this\<lparr>Rcon := initRcon_loop 0 nr 0x01 (Rcon this)\<rparr>"


section \<open>State transforms\<close>

definition AddRoundKey_col :: "u32 list \<Rightarrow> int \<Rightarrow> nat \<Rightarrow> grid \<Rightarrow> error + grid" where
  "AddRoundKey_col ws index i st =
     ebind (vec_at ws (int i + index)) (\<lambda>k.
       Inr (put_column st i (column_word st i XOR k)))"

text \<open>An exception of \<open>w.at\<close> leaves \<open>AddRoundKey\<close> at once; the State it has half
  written is not returned here.\<close>

definition AddRoundKey :: "grid \<Rightarrow> u32 list \<Rightarrow> int \<Rightarrow> error + grid" where
  "AddRoundKey st ws index = for_each [0..<4] (AddRoundKey_col ws index) st"

definition SubBytes :: "grid \<Rightarrow> grid" where
  "SubBytes st = fold (\<lambda>i s. put_column s i (subWord (column_word s i))) [0..<4] st"

text \<open>One turn of the inner loop of \<open>ShiftRows\<close>: row \<open>i\<close> is packed into a word, unpacked
  and written back one place to the left.\<close>

definition ShiftRows_once :: "nat \<Rightarrow> grid \<Rightarrow> grid" where
  "ShiftRows_once i st =
     (let row = pack (get st i 0) (get st i 1) (get st i 2) (get st i 3);
          r0 = byte0 row; r1 = byte1 row; r2 = byte2 row; r3 = byte3 row
      in put (put (put (put st i 0 r1) i 1 r2) i 2 r3) i 3 r0)"

definition ShiftRows :: "grid \<Rightarrow> grid" where
  "ShiftRows st = fold (\<lambda>i s. fold (\<lambda>j. ShiftRows_once i) [0..<i] s) [0..<4] st"

definition MixColumns_col :: "nat \<Rightarrow> grid \<Rightarrow> grid" where
  "MixColumns_col i st =
     (let s0 = get st 0 i; s1 = get st 1 i; s2 = get st 2 i; s3 = get st 3 i;
          st = put st 0 i (ffMultiply 0x02 s0 XOR ffMultiply 0x03 s1 XOR s2 XOR s3);
          st = put st 1 i (s0 XOR ffMultiply 0x02 s1 XOR ffMultiply 0x03 s2 XOR s3);
          st = put st 2 i (s0 XOR s1 XOR ffMultiply 0x02 s2 XOR ffMultiply 0x03 s3);
          st = put st 3 i (ffMultiply 0x03 s0 XOR s1 XOR s2 XOR ffMultiply 0x02 s3)
      in st)"

text \<open>\<open>MixColumns\<close> and \<open>InvMixColumns\<close> run over \<open>this->Nb\<close> columns, which the
  constructor sets to 4.\<close>

definition MixColumns :: "int \<Rightarrow> grid \<Rightarrow> grid" where
  "MixColumns nb st = fold MixColumns_col [0..<nat nb] st"

section \<open>Inverse transforms\<close>

definition InvsubWord :: "u32 \<Rightarrow> u32" where
  "InvsubWord word =
     (let b0 = byte0 word; b1 = byte1 word; b2 = byte2 word; b3 = byte3 word
      in pack (InvsBoxSub b0) (InvsBoxSub b1) (InvsBoxSub b2) (InvsBoxSub b3))"

definition InvSubBytes :: "grid \<Rightarrow> grid" where
  "InvSubBytes st = fold (\<lambda>i s. put_column s i (InvsubWord (column_word s i))) [0..<4] st"

definition InvShiftRows_once :: "nat \<Rightarrow> grid \<Rightarrow> grid" where
  "InvShiftRows_once i st =
     (let row = pack (get st i 0) (get st i 1) (get st i 2) (get st i 3);
          r0 = byte0 row; r1 = byte1 row; r2 = byte2 row; r3 = byte3 row
      in put (put (put (put st i 0 r3) i 1 r0) i 2 r1) i 3 r2)"

definition InvShiftRows :: "grid \<Rightarrow> grid" where
  "InvShiftRows st = fold (\<lambda>i s. fold (\<lambda>j. InvShiftRows_once i) [0..<i] s) [0..<4] st"

definition InvMixColumns_col :: "nat \<Rightarrow> grid \<Rightarrow> grid" where
  "InvMixColumns_col i st =
     (let s0 = get st 0 i; s1 = get st 1 i; s2 = get st 2 i; s3 = get st 3 i;
          st = put st 0 i (ffMultiply 0x0e s0 XOR ffMultiply 0x0b s1 XOR ffMultiply 0x0d s2 XOR ffMultiply 0x09 s3);
          st = put st 1 i (ffMultiply 0x09 s0 XOR ffMultiply 0x0e s1 XOR ffMultiply 0x0b s2 XOR ffMultiply 0x0d s3);
          st = put st 2 i (ffMultiply 0x0d s0 XOR ffMultiply 0x09 s1 XOR ffMultiply 0x0e s2 XOR ffMultiply 0x0b s3);
          st = put st 3 i (ffMultiply 0x0b s0 XOR ffMultiply 0x0d s1 XOR ffMultiply 0x09 s2 XOR ffMultiply 0x0e s3)
      in st)"

definition InvMixColumns :: "int \<Rightarrow> grid \<Rightarrow> grid" where
  "InvMixColumns nb st = fold InvMixColumns_col [0..<nat nb] st"

section \<open>The two round sequences\<close>

text \<open>The trace that \<open>Cipher\<close> and \<open>Decipher\<close> print between the transforms does not
  touch the object and is left out. The loops carry the State and the local \<open>index\<close>.\<close>

function Cipher_loop :: "int \<Rightarrow> aes \<Rightarrow> grid \<times> int \<Rightarrow> error + grid \<times> int" where
  "Cipher_loop i this (st, index) =
     (if i < Nr this - 1 then
        ebind (AddRoundKey (MixColumns (Nb this) (ShiftRows (SubBytes st))) (w this) index) (\<lambda>st'.
          Cipher_loop (i + 1) this (st', index + 4))
      else Inr (st, index))"
  by pat_completeness auto
termination
  by (relation "measure (\<lambda>(i, this, s). nat (Nr this - 1 - i))") auto

declare Cipher_loop.simps [simp del]

definition Cipher :: "aes \<Rightarrow> error + aes" where
  "Cipher this =
     ebind (AddRoundKey (state this) (w this) 0) (\<lambda>st0.
     ebind (Cipher_loop 0 this (st0, 0 + 4)) (\<lambda>(st1, index).
     ebind (AddRoundKey (ShiftRows (SubBytes st1)) (w this) index) (\<lambda>st2.
       Inr (this\<lparr>state := st2\<rparr>))))"

function Decipher_loop :: "int \<Rightarrow> aes \<Rightarrow> grid \<times> int \<Rightarrow> error + grid \<times> int" where
  "Decipher_loop i this (st, index) =
     (if i < Nr this - 1 then
        ebind (AddRoundKey (InvSubBytes (InvShiftRows st)) (w this) index) (\<lambda>st'.
          Decipher_loop (i + 1) this (InvMixColumns (Nb this) st', index - 4))
      else Inr (st, index))"
  by pat_completeness auto
termination
  by (relation "measure (\<lambda>(i, this, s). nat (Nr this - 1 - i))") auto

declare Decipher_loop.simps [simp del]

definition Decipher :: "aes \<Rightarrow> error + aes" where
  "Decipher this =
     ebind (AddRoundKey (state this) (w this) (Nr this * Nb this)) (\<lambda>st0.
     ebind (Decipher_loop 0 this (st0, Nr this * Nb this - 4)) (\<lambda>(st1, index).
     ebind (AddRoundKey (InvSubBytes (InvShiftRows st1)) (w this) index) (\<lambda>st2.
       Inr (this\<lparr>state := st2\<rparr>))))"


section \<open>Reading hexadecimal text\<close>

text \<open>
  \<open>std::stoi(str, 0, 16)\<close> of the C++ library, as the code calls it: leading white space is
  skipped, one sign is accepted, then an optional \<open>0x\<close> prefix, then the longest run of
  hexadecimal digits; what follows is ignored. No digit at all raises \<open>invalid_argument\<close>, a
  value that does not fit an \<open>int\<close> raises \<open>out_of_range\<close>.
\<close>

definition isspace :: "char \<Rightarrow> bool" where
  "isspace c = (of_char c \<in> {9, 10, 11, 12, 13, 32 :: nat})"

definition isxdigit :: "char \<Rightarrow> bool" where
  "isxdigit c =
     (let n = of_char c :: nat
      in (48 \<le> n \<and> n \<le> 57) \<or> (65 \<le> n \<and> n \<le> 70) \<or> (97 \<le> n \<and> n \<le> 102))"

definition hex_value :: "char \<Rightarrow> int" where
  "hex_value c =
     (let n = of_char c :: int
      in if n \<le> 57 then n - 48 else if n \<le> 70 then n - 55 else n - 87)"

definition strip_sign :: "string \<Rightarrow> bool \<times> string" where
  "strip_sign s =
     (case s of
        [] \<Rightarrow> (False, s)
      | c # rest \<Rightarrow>
          if c = CHR ''-'' then (True, rest)
          else if c = CHR ''+'' then (False, rest)
          else (False, s))"

definition strip_0x :: "string \<Rightarrow> string" where
  "strip_0x s =
     (case s of
        z # x # h # rest \<Rightarrow>
          if z = CHR ''0'' \<and> (x = CHR ''x'' \<or> x = CHR ''X'') \<and> isxdigit h then h # rest else s
      | _ \<Rightarrow> s)"

definition stoi :: "string \<Rightarrow> error + int" where
  "stoi str =
     (let (neg, s) = strip_sign (dropWhile isspace str);
          ds = takeWhile isxdigit (strip_0x s)
      in if ds = [] then Inl InvalidArgument
         else
           (let v = foldl (\<lambda>acc c. acc * 16 + hex_value c) 0 ds;
                r = (if neg then - v else v)
            in if r < - (2 ^ 31) \<or> 2 ^ 31 - 1 < r then Inl OutOfRange else Inr r))"

definition substr :: "string \<Rightarrow> nat \<Rightarrow> nat \<Rightarrow> string" where
  "substr s pos n = take n (drop pos s)"

section \<open>Construction\<close>

text \<open>The first loop of \<open>initState\<close>: one byte from every two characters, kept in a
  \<open>vector<int>\<close>.\<close>

function initState_bytes :: "nat \<Rightarrow> string \<Rightarrow> int list \<Rightarrow> error + int list" where
  "initState_bytes i input bytes =
     (if i < length input then
        ebind (stoi (substr input i 2)) (\<lambda>v.
          (let byte = (word_of_int v :: u8)
           in initState_bytes (i + 2) input (bytes @ [uint byte])))
      else Inr bytes)"
  by pat_completeness auto
termination
  by (relation "measure (\<lambda>(i, input, bytes). length input - i)") auto

declare initState_bytes.simps [simp del]

definition initState :: "string \<Rightarrow> aes \<Rightarrow> error + aes" where
  "initState input this =
     ebind (initState_bytes 0 input []) (\<lambda>bytes.
     ebind (for_each [0..<4] (\<lambda>i. for_each [0..<4] (\<lambda>j st.
              ebind (vec_at bytes (int (i * 4 + j))) (\<lambda>b. Inr (put st j i (word_of_int b)))))
            (state this)) (\<lambda>st.
       Inr (this\<lparr>state := st\<rparr>)))"

text \<open>The loop of \<open>initKey\<close>, which appends to \<open>this->key\<close>.\<close>

function initKey_bytes :: "nat \<Rightarrow> string \<Rightarrow> aes \<Rightarrow> error + aes" where
  "initKey_bytes i k this =
     (if i < length k then
        ebind (stoi (substr k i 2)) (\<lambda>v.
          (let byte = (word_of_int v :: u8)
           in initKey_bytes (i + 2) k (this\<lparr>key := key this @ [byte]\<rparr>)))
      else Inr this)"
  by pat_completeness auto
termination
  by (relation "measure (\<lambda>(i, k, this). length k - i)") auto

declare initKey_bytes.simps [simp del]

text \<open>What a function writes to \<open>cout\<close> is returned beside its result, as the list of the
  pieces written.\<close>

definition endl :: string where
  "endl = [CHR 0x0A]"

definition initKey :: "string \<Rightarrow> bool \<Rightarrow> aes \<Rightarrow> string list \<times> (error + aes)" where
  "initKey k encrypt this =
     (let out0 = (if \<not> encrypt then [''INVERSE CIPHER (DECRYPT):'', endl] else []);
          bits = (length k div 2) * 8
      in if bits = 128 then
           (out0 @ (if encrypt then [''C.1   AES-128 (Nk=4, Nr=10)'', endl] else []),
            initKey_bytes 0 k (this\<lparr>Nk := 4, Nr := 10\<rparr>))
         else if bits = 192 then
           (out0 @ (if encrypt then [''C.2   AES-192 (Nk=6, Nr=12)'', endl] else []),
            initKey_bytes 0 k (this\<lparr>Nk := 6, Nr := 12\<rparr>))
         else if bits = 256 then
           (out0 @ (if encrypt then [''C.3   AES-256 (Nk=8, Nr=14)'', endl] else []),
            initKey_bytes 0 k (this\<lparr>Nk := 8, Nr := 14\<rparr>))
         else (out0, Inr this))"

text \<open>
  The constructor. The members \<open>state\<close>, \<open>Nk\<close> and \<open>Nr\<close> have no initialiser in the
  sources at hand (the class declaration is in \<open>AES.h\<close>), so what they hold when the body
  starts is taken as the parameters \<open>st0\<close>, \<open>nk0\<close> and \<open>nr0\<close>; the three vectors start
  empty.
\<close>

definition AES_ctor ::
  "grid \<Rightarrow> int \<Rightarrow> int \<Rightarrow> string \<Rightarrow> string \<Rightarrow> bool \<Rightarrow> string list \<times> (error + aes)" where
  "AES_ctor st0 nk0 nr0 input k encrypt =
     (let this = \<lparr>state = st0, key = [], w = [], Rcon = [], Nk = nk0, Nr = nr0, Nb = 4\<rparr>
      in case initState input this of
           Inl e \<Rightarrow> ([], Inl e)
         | Inr this \<Rightarrow>
             (case initKey k encrypt this of
                (out1, Inl e) \<Rightarrow> (out1, Inl e)
              | (out1, Inr this) \<Rightarrow>
                  (let out2 = out1 @
                         (if encrypt
                          then [endl, ''PLAINTEXT:          '', input, endl,
                                ''KEY:                '', k, endl, endl]
                          else []);
                       this = initRcon (Nr this) this
                   in (out2, KeyExpansion (key this) (w this) (Nk this) this))))"

text \<open>\<open>printState\<close>: the sixteen bytes in column-major order, two lower-case hexadecimal
  digits each.\<close>

definition hex2 :: "u8 \<Rightarrow> string" where
  "hex2 b = [''0123456789abcdef'' ! (unat b div 16), ''0123456789abcdef'' ! (unat b mod 16)]"

definition printState :: "grid \<Rightarrow> string" where
  "printState st = concat (map (\<lambda>i. concat (map (\<lambda>j. hex2 (get st j i)) [0..<4])) [0..<4])"


section \<open>Auxiliary notions for the proofs\<close>

text \<open>A byte that is kept or replaced by zero; it names the summands of \<open>ffMultiply\<close>.\<close>

definition cond :: "bool \<Rightarrow> u8 \<Rightarrow> u8" where
  "cond c x = (if c then x else 0)"

text \<open>The first entry of a mixed column and of an inversely mixed column; the other three
  entries are the same expression on the rotated column.\<close>

definition mixc :: "u8 \<Rightarrow> u8 \<Rightarrow> u8 \<Rightarrow> u8 \<Rightarrow> u8" where
  "mixc s0 s1 s2 s3 = ffMultiply 0x02 s0 XOR ffMultiply 0x03 s1 XOR s2 XOR s3"

definition imixc :: "u8 \<Rightarrow> u8 \<Rightarrow> u8 \<Rightarrow> u8 \<Rightarrow> u8" where
  "imixc s0 s1 s2 s3 =
     ffMultiply 0x0e s0 XOR ffMultiply 0x0b s1 XOR ffMultiply 0x0d s2 XOR ffMultiply 0x09 s3"

text \<open>The State with four words added to its four columns.\<close>

fun xor_cols :: "grid \<Rightarrow> u32 \<Rightarrow> u32 \<Rightarrow> u32 \<Rightarrow> u32 \<Rightarrow> grid" where
  "xor_cols (Grid (Row a0 a1 a2 a3) (Row b0 b1 b2 b3) (Row c0 c1 c2 c3) (Row d0 d1 d2 d3))
       k0 k1 k2 k3 =
     Grid (Row (a0 XOR byte0 k0) (a1 XOR byte0 k1) (a2 XOR byte0 k2) (a3 XOR byte0 k3))
          (Row (b0 XOR byte1 k0) (b1 XOR byte1 k1) (b2 XOR byte1 k2) (b3 XOR byte1 k3))
          (Row (c0 XOR byte2 k0) (c1 XOR byte2 k1) (c2 XOR byte2 k2) (c3 XOR byte2 k3))
          (Row (d0 XOR byte3 k0) (d1 XOR byte3 k1) (d2 XOR byte3 k2) (d3 XOR byte3 k3))"

section \<open>The decryption order as the specification words it\<close>

text \<open>Section 4.5 of the specification: round \<open>r\<close> of the decryption takes the four words
  at offset \<open>Nr * Nb - 4 * r\<close>, the slice next below the one of round \<open>r - 1\<close>.\<close>

definition Decipher_round :: "aes \<Rightarrow> nat \<Rightarrow> grid \<Rightarrow> error + grid" where
  "Decipher_round this r st =
     ebind (AddRoundKey (InvSubBytes (InvShiftRows st)) (w this) (Nr this * Nb this - 4 * int r))
       (\<lambda>st'. Inr (InvMixColumns (Nb this) st'))"

definition Decipher_rounds :: "aes \<Rightarrow> error + aes" where
  "Decipher_rounds this =
     ebind (AddRoundKey (state this) (w this) (Nr this * Nb this)) (\<lambda>st0.
     ebind (for_each [1..<nat (Nr this)] (Decipher_round this) st0) (\<lambda>st1.
     ebind (AddRoundKey (InvSubBytes (InvShiftRows st1)) (w this) 0) (\<lambda>st2.
       Inr (this\<lparr>state := st2\<rparr>))))"

section \<open>Polynomials over GF(2)\<close>

text \<open>
  A polynomial over GF(2) is the natural number whose bit \<open>i\<close> is the coefficient of \<open>x^i\<close>:
  addition is \<open>XOR\<close>, \<open>x^i\<close> is \<open>2 ^ i\<close>, and \<open>clmul\<close> is the product. The field polynomial
  \<open>m(x) = x^8 + x^4 + x^3 + x + 1\<close> is \<open>0x11b\<close>. A byte \<open>r\<close> is \<open>x^i mod m(x)\<close> when
  \<open>x^i = q m + r\<close> for some polynomial \<open>q\<close>; a byte has degree below 8, the degree of \<open>m\<close>.
\<close>

definition field_modulus :: nat where
  "field_modulus = 0x11b"

fun clmul :: "nat \<Rightarrow> nat \<Rightarrow> nat" where
  "clmul a b = (if a = 0 then 0 else (if odd a then b else 0) XOR 2 * clmul (a div 2) b)"

declare clmul.simps [simp del]

definition xpow_mod :: "nat \<Rightarrow> u8 \<Rightarrow> bool" where
  "xpow_mod i r = (\<exists>q<2 ^ i. 2 ^ i = clmul q field_modulus XOR unat r)"

section \<open>The key schedule recurrence as the specification words it\<close>

text \<open>Section 4.3 of the specification: the value \<open>temp\<close> that is added to word \<open>i - Nk\<close>,
  from the previous word \<open>prev\<close> of the schedule.\<close>

definition schedule_temp :: "int \<Rightarrow> u32 list \<Rightarrow> u32 \<Rightarrow> int \<Rightarrow> u32" where
  "schedule_temp nk rcon prev i =
     (if i mod nk = 0 then subWord (rotWord prev) XOR rcon ! nat (i div nk - 1)
      else if nk > 6 \<and> i mod nk = 4 then subWord prev
      else prev)"

section \<open>Hexadecimal text as bytes\<close>

text \<open>The bytes that a text of hexadecimal digits stands for, two digits to a byte (a last
  single digit is a byte of its own), and the State that the second loop of \<open>initState\<close>
  writes from sixteen bytes.\<close>

fun hex_bytes :: "string \<Rightarrow> u8 list" where
  "hex_bytes (a # b # rest) = word_of_int (hex_value a * 16 + hex_value b) # hex_bytes rest"
| "hex_bytes [a] = [word_of_int (hex_value a)]"
| "hex_bytes [] = []"

definition block_grid :: "u8 list \<Rightarrow> grid" where
  "block_grid bs =
     Grid (Row (bs ! 0) (bs ! 4) (bs ! 8) (bs ! 12))
          (Row (bs ! 1) (bs ! 5) (bs ! 9) (bs ! 13))
          (Row (bs ! 2) (bs ! 6) (bs ! 10) (bs ! 14))
          (Row (bs ! 3) (bs ! 7) (bs ! 11) (bs ! 15))"

section \<open>The first known-answer vector\<close>

text \<open>
  The object that the constructor builds from the block text
  \<open>00112233445566778899aabbccddeeff\<close> and the key text \<open>000102030405060708090a0b0c0d0e0f\<close>
  of section 8 of the specification (lemma \<open>c1_ctor\<close> below), and an all-zero State for
  the members before construction.
\<close>

definition c1_object :: aes where
  "c1_object =
     \<lparr>state = Grid (Row 0x00 0x44 0x88 0xcc) (Row 0x11 0x55 0x99 0xdd) (Row 0x22 0x66 0xaa 0xee) (Row 0x33 0x77 0xbb 0xff),
      key = [0x00, 0x01, 0x02, 0x03, 0x04, 0x05, 0x06, 0x07, 0x08, 0x09, 0x0a, 0x0b, 0x0c, 0x0d, 0x0e, 0x0f],
      w = [
        0x00010203, 0x04050607, 0x08090a0b, 0x0c0d0e0f,
        0xd6aa74fd, 0xd2af72fa, 0xdaa678f1, 0xd6ab76fe,
        0xb692cf0b, 0x643dbdf1, 0xbe9bc500, 0x6830b3fe,
        0xb6ff744e, 0xd2c2c9bf, 0x6c590cbf, 0x0469bf41,
        0x47f7f7bc, 0x95353e03, 0xf96c32bc, 0xfd058dfd,
        0x3caaa3e8, 0xa99f9deb, 0x50f3af57, 0xadf622aa,
        0x5e390f7d, 0xf7a69296, 0xa7553dc1, 0x0aa31f6b,
        0x14f9701a, 0xe35fe28c, 0x440adf4d, 0x4ea9c026,
        0x47438735, 0xa41c65b9, 0xe016baf4, 0xaebf7ad2,
        0x549932d1, 0xf0855768, 0x1093ed9c, 0xbe2c974e,
        0x13111d7f, 0xe3944a17, 0xf307a78b, 0x4d2b30c5],
      Rcon = [
        0x01000000, 0x02000000, 0x04000000, 0x08000000,
        0x10000000, 0x20000000, 0x40000000, 0x80000000,
        0x1b000000, 0x36000000],
      Nk = 4, Nr = 10, Nb = 4\<rparr>"

definition zero_grid :: grid where
  "zero_grid = Grid (Row 0 0 0 0) (Row 0 0 0 0) (Row 0 0 0 0) (Row 0 0 0 0)"

section \<open>Basic facts\<close>

lemma ebind_Inr [simp]: "ebind (Inr x) f = f x"
  by (simp add: ebind_def)

lemma ebind_Inl [simp]: "ebind (Inl e) f = Inl e"
  by (simp add: ebind_def)

lemma ff_mask: "(0xFF :: u32) = mask 8"
  by (simp add: mask_eq_exp_minus_1)

lemma bit_u8_bound: "bit (b :: u8) n \<Longrightarrow> n < 8"
  by (drule bit_imp_le_length) simp

lemma byte0_pack: "byte0 (pack a b c d) = a"
  unfolding byte0_def pack_def ff_mask
  by (rule bit_word_eqI) (auto simp: bit_simps dest: bit_u8_bound)

lemma byte1_pack: "byte1 (pack a b c d) = b"
  unfolding byte1_def pack_def ff_mask
  by (rule bit_word_eqI) (auto simp: bit_simps dest: bit_u8_bound)

lemma byte2_pack: "byte2 (pack a b c d) = c"
  unfolding byte2_def pack_def ff_mask
  by (rule bit_word_eqI) (auto simp: bit_simps dest: bit_u8_bound)

lemma byte3_pack: "byte3 (pack a b c d) = d"
  unfolding byte3_def pack_def ff_mask
  by (rule bit_word_eqI) (auto simp: bit_simps dest: bit_u8_bound)

lemmas byte_pack = byte0_pack byte1_pack byte2_pack byte3_pack

lemma pack_bytes: "pack (byte0 x) (byte1 x) (byte2 x) (byte3 x) = x"
proof (rule bit_word_eqI)
  fix n :: nat
  assume "n < LENGTH(32)"
  then consider "n < 8" | "8 \<le> n" "n < 16" | "16 \<le> n" "n < 24" | "24 \<le> n" "n < 32"
    by (cases "n < 8"; cases "n < 16"; cases "n < 24") auto
  then show "bit (pack (byte0 x) (byte1 x) (byte2 x) (byte3 x)) n = bit x n"
    unfolding byte0_def byte1_def byte2_def byte3_def pack_def ff_mask
    by cases (auto simp: bit_simps)
qed

lemma byte0_xor: "byte0 (x XOR y) = byte0 x XOR byte0 y"
  unfolding byte0_def ff_mask by (rule bit_word_eqI) (auto simp: bit_simps)

lemma byte1_xor: "byte1 (x XOR y) = byte1 x XOR byte1 y"
  unfolding byte1_def ff_mask by (rule bit_word_eqI) (auto simp: bit_simps)

lemma byte2_xor: "byte2 (x XOR y) = byte2 x XOR byte2 y"
  unfolding byte2_def ff_mask by (rule bit_word_eqI) (auto simp: bit_simps)

lemma byte3_xor: "byte3 (x XOR y) = byte3 x XOR byte3 y"
  unfolding byte3_def ff_mask by (rule bit_word_eqI) (auto simp: bit_simps)

lemmas byte_xor = byte0_xor byte1_xor byte2_xor byte3_xor

lemma upt_0_4: "[0..<4] = [0, 1, 2, 3]"
  by (simp add: upt_rec)

lemma upt_0_8: "[0..<8] = [0, 1, 2, 3, 4, 5, 6, 7]"
  by (simp add: upt_rec)

section \<open>The constructor and its flag\<close>

lemma initKey_flag: "snd (initKey k True this) = snd (initKey k False this)"
  by (simp add: initKey_def Let_def)

lemma ctor_result:
  "snd (AES_ctor st0 nk0 nr0 input k encrypt) =
     ebind (initState input \<lparr>state = st0, key = [], w = [], Rcon = [], Nk = nk0, Nr = nr0, Nb = 4\<rparr>)
       (\<lambda>this. ebind (snd (initKey k encrypt this))
         (\<lambda>this. KeyExpansion (key this) (w this) (Nk this) (initRcon (Nr this) this)))"
proof (cases "initState input \<lparr>state = st0, key = [], w = [], Rcon = [], Nk = nk0, Nr = nr0, Nb = 4\<rparr>")
  case (Inl e)
  then show ?thesis by (simp add: AES_ctor_def)
next
  case (Inr this)
  obtain out r where ik: "initKey k encrypt this = (out, r)"
    by (cases "initKey k encrypt this")
  show ?thesis using Inr ik
    by (cases r) (simp_all add: AES_ctor_def Let_def initRcon_def)
qed

lemma initKey_flag_output: "fst (initKey k True this) \<noteq> fst (initKey k False this)"
  by (simp add: initKey_def Let_def)

text \<open>
  C9. Whatever the input text and the key text (and whatever the members held before), the
  constructor called with the flag set and with the flag clear ends in the same way: the same
  exception, or the same object, field by field (State, key, \<open>Nk\<close>, \<open>Nr\<close>, schedule). The
  flag only selects what is written to \<open>cout\<close>, the first component of the result.
\<close>

theorem ctor_flag_independent:
  "snd (AES_ctor st0 nk0 nr0 input k True) = snd (AES_ctor st0 nk0 nr0 input k False)"
  unfolding ctor_result by (subst initKey_flag) (rule refl)


section \<open>Finite field arithmetic: linearity and the field laws\<close>

lemma cond_simps [simp]: "cond True x = x" "cond False x = 0" "cond c 0 = 0"
  by (simp_all add: cond_def)

lemma cond_xor: "cond c (x XOR y) = cond c x XOR cond c y"
  by (simp add: cond_def)

lemma cond_neq: "cond (p = (\<not> q)) x = cond p x XOR cond q x"
  by (cases p; cases q) simp_all

lemma and_1_bit: "((a :: u8) AND 0x1 \<noteq> 0) = bit a 0"
  using and_exp_eq_0_iff_not_bit [of a 0] by simp

lemma and_80_bit: "((a :: u8) AND 0x80 \<noteq> 0) = bit a 7"
  using and_exp_eq_0_iff_not_bit [of a 7] by simp

lemma xtime_alt: "xtime b = push_bit 1 b XOR cond (bit b 7) 0x1b"
  by (simp add: xtime_def Let_def and_80_bit cond_def)

lemma xtime_xor: "xtime (a XOR b) = xtime a XOR xtime b"
  by (simp add: xtime_alt push_bit_xor bit_xor_iff cond_neq ac_simps)

lemma xtime_0 [simp]: "xtime 0 = 0"
  by (simp add: xtime_alt)

lemma ffMultiply_unroll:
  "ffMultiply a b =
     cond (bit a 0) b XOR cond (bit a 1) (xtime b) XOR cond (bit a 2) (xtime (xtime b)) XOR
     cond (bit a 3) (xtime (xtime (xtime b))) XOR
     cond (bit a 4) (xtime (xtime (xtime (xtime b)))) XOR
     cond (bit a 5) (xtime (xtime (xtime (xtime (xtime b))))) XOR
     cond (bit a 6) (xtime (xtime (xtime (xtime (xtime (xtime b)))))) XOR
     cond (bit a 7) (xtime (xtime (xtime (xtime (xtime (xtime (xtime b)))))))"
proof -
  have step: "\<And>c s x. (if c then s XOR x else s) = s XOR cond c x"
    by (simp add: cond_def)
  show ?thesis
    by (simp add: ffMultiply_def ffMultiply_step_def upt_0_8 Let_def and_1_bit step
        bit_drop_bit_eq eval_nat_numeral ac_simps del: if_split cong: if_weak_cong)
qed

lemma ffMultiply_xor_right: "ffMultiply a (b XOR c) = ffMultiply a b XOR ffMultiply a c"
  by (simp add: ffMultiply_unroll xtime_xor cond_xor ac_simps)

lemma ffMultiply_xor_left: "ffMultiply (a XOR a') b = ffMultiply a b XOR ffMultiply a' b"
  by (simp add: ffMultiply_unroll bit_xor_iff cond_neq ac_simps)

lemma ffMultiply_0_left [simp]: "ffMultiply 0 b = 0"
  by (simp add: ffMultiply_unroll)

lemma ffMultiply_0_right [simp]: "ffMultiply a 0 = 0"
  by (simp add: ffMultiply_unroll)


lemma bit_cond: "bit (cond c v) n = (c \<and> bit v n)"
  by (simp add: cond_def)

lemma u8_bits:
  "(x :: u8) =
     cond (bit x 0) 1 XOR cond (bit x 1) 2 XOR cond (bit x 2) 4 XOR cond (bit x 3) 8 XOR
     cond (bit x 4) 16 XOR cond (bit x 5) 32 XOR cond (bit x 6) 64 XOR cond (bit x 7) 128"
proof (rule bit_word_eqI)
  fix n :: nat
  assume "n < LENGTH(8)"
  then consider "n = 0" | "n = 1" | "n = 2" | "n = 3" | "n = 4" | "n = 5" | "n = 6" | "n = 7"
    by force
  then show "bit x n = bit (cond (bit x 0) 1 XOR cond (bit x 1) 2 XOR cond (bit x 2) 4 XOR
      cond (bit x 3) 8 XOR cond (bit x 4) 16 XOR cond (bit x 5) 32 XOR cond (bit x 6) 64 XOR
      cond (bit x 7) 128) n"
    by cases (simp_all add: bit_xor_iff bit_cond)
qed

lemma u8_linear_eq:
  fixes f g :: "u8 \<Rightarrow> u8"
  assumes f: "\<And>a b. f (a XOR b) = f a XOR f b"
    and g: "\<And>a b. g (a XOR b) = g a XOR g b"
    and basis: "f 1 = g 1" "f 2 = g 2" "f 4 = g 4" "f 8 = g 8"
               "f 16 = g 16" "f 32 = g 32" "f 64 = g 64" "f 128 = g 128"
  shows "f x = g x"
proof -
  have f0: "f 0 = 0" using f [of 0 0] by simp
  have g0: "g 0 = 0" using g [of 0 0] by simp
  have c: "f (cond c v) = g (cond c v)" if "f v = g v" for c v
    using that by (cases c) (simp_all add: f0 g0)
  let ?d = "cond (bit x 0) 1 XOR cond (bit x 1) 2 XOR cond (bit x 2) 4 XOR cond (bit x 3) 8 XOR
     cond (bit x 4) 16 XOR cond (bit x 5) 32 XOR cond (bit x 6) 64 XOR cond (bit x 7) 128"
  have "f ?d = g ?d"
    by (simp only: f g c basis)
  moreover have "x = ?d" by (rule u8_bits)
  ultimately show ?thesis by simp
qed

lemmas ff_eval = ffMultiply_def ffMultiply_step_def xtime_def upt_0_8 Let_def

lemma ffMultiply_1_left [simp]: "ffMultiply 1 b = b"
  by (simp add: ffMultiply_unroll bit_0)

lemma ffMultiply_basis_commute:
  "ffMultiply 1 b = ffMultiply b 1" "ffMultiply 2 b = ffMultiply b 2"
  "ffMultiply 4 b = ffMultiply b 4" "ffMultiply 8 b = ffMultiply b 8"
  "ffMultiply 16 b = ffMultiply b 16" "ffMultiply 32 b = ffMultiply b 32"
  "ffMultiply 64 b = ffMultiply b 64" "ffMultiply 128 b = ffMultiply b 128"
proof -
  show "ffMultiply 1 b = ffMultiply b 1"
    by (rule u8_linear_eq [where f = "ffMultiply 1" and g = "\<lambda>b. ffMultiply b 1"])
       (simp_all add: ffMultiply_xor_right ffMultiply_xor_left, simp_all add: ff_eval)
  show "ffMultiply 2 b = ffMultiply b 2"
    by (rule u8_linear_eq [where f = "ffMultiply 2" and g = "\<lambda>b. ffMultiply b 2"])
       (simp_all add: ffMultiply_xor_right ffMultiply_xor_left, simp_all add: ff_eval)
  show "ffMultiply 4 b = ffMultiply b 4"
    by (rule u8_linear_eq [where f = "ffMultiply 4" and g = "\<lambda>b. ffMultiply b 4"])
       (simp_all add: ffMultiply_xor_right ffMultiply_xor_left, simp_all add: ff_eval)
  show "ffMultiply 8 b = ffMultiply b 8"
    by (rule u8_linear_eq [where f = "ffMultiply 8" and g = "\<lambda>b. ffMultiply b 8"])
       (simp_all add: ffMultiply_xor_right ffMultiply_xor_left, simp_all add: ff_eval)
  show "ffMultiply 16 b = ffMultiply b 16"
    by (rule u8_linear_eq [where f = "ffMultiply 16" and g = "\<lambda>b. ffMultiply b 16"])
       (simp_all add: ffMultiply_xor_right ffMultiply_xor_left, simp_all add: ff_eval)
  show "ffMultiply 32 b = ffMultiply b 32"
    by (rule u8_linear_eq [where f = "ffMultiply 32" and g = "\<lambda>b. ffMultiply b 32"])
       (simp_all add: ffMultiply_xor_right ffMultiply_xor_left, simp_all add: ff_eval)
  show "ffMultiply 64 b = ffMultiply b 64"
    by (rule u8_linear_eq [where f = "ffMultiply 64" and g = "\<lambda>b. ffMultiply b 64"])
       (simp_all add: ffMultiply_xor_right ffMultiply_xor_left, simp_all add: ff_eval)
  show "ffMultiply 128 b = ffMultiply b 128"
    by (rule u8_linear_eq [where f = "ffMultiply 128" and g = "\<lambda>b. ffMultiply b 128"])
       (simp_all add: ffMultiply_xor_right ffMultiply_xor_left, simp_all add: ff_eval)
qed

lemma ffMultiply_commute: "ffMultiply a b = ffMultiply b a"
  by (rule u8_linear_eq [where f = "\<lambda>a. ffMultiply a b" and g = "ffMultiply b"])
     (simp_all add: ffMultiply_xor_right ffMultiply_xor_left ffMultiply_basis_commute [symmetric])


text \<open>
  C8. \<open>ffMultiply\<close> is commutative, distributes over \<open>ffAdd\<close>, has 1 as identity and 0 as
  annihilator on either side, for all bytes.
\<close>

theorem ffMultiply_laws:
  "ffMultiply a b = ffMultiply b a \<and>
   ffMultiply a (ffAdd b c) = ffAdd (ffMultiply a b) (ffMultiply a c) \<and>
   ffMultiply b 1 = b \<and>
   ffMultiply a 0 = 0 \<and> ffMultiply 0 b = 0"
proof -
  have "ffMultiply b 1 = ffMultiply 1 b" by (rule ffMultiply_commute)
  then show ?thesis
    by (simp add: ffAdd_def ffMultiply_xor_right ffMultiply_commute [of a b])
qed


section \<open>The transforms written out on the sixteen bytes\<close>

lemma SubBytes_Grid:
  "SubBytes (Grid (Row a0 a1 a2 a3) (Row b0 b1 b2 b3) (Row c0 c1 c2 c3) (Row d0 d1 d2 d3)) =
     Grid (Row (sBoxSub a0) (sBoxSub a1) (sBoxSub a2) (sBoxSub a3))
          (Row (sBoxSub b0) (sBoxSub b1) (sBoxSub b2) (sBoxSub b3))
          (Row (sBoxSub c0) (sBoxSub c1) (sBoxSub c2) (sBoxSub c3))
          (Row (sBoxSub d0) (sBoxSub d1) (sBoxSub d2) (sBoxSub d3))"
  by (simp add: SubBytes_def upt_0_4 put_column_def column_word_def subWord_def byte_pack Let_def)

lemma InvSubBytes_Grid:
  "InvSubBytes (Grid (Row a0 a1 a2 a3) (Row b0 b1 b2 b3) (Row c0 c1 c2 c3) (Row d0 d1 d2 d3)) =
     Grid (Row (InvsBoxSub a0) (InvsBoxSub a1) (InvsBoxSub a2) (InvsBoxSub a3))
          (Row (InvsBoxSub b0) (InvsBoxSub b1) (InvsBoxSub b2) (InvsBoxSub b3))
          (Row (InvsBoxSub c0) (InvsBoxSub c1) (InvsBoxSub c2) (InvsBoxSub c3))
          (Row (InvsBoxSub d0) (InvsBoxSub d1) (InvsBoxSub d2) (InvsBoxSub d3))"
  by (simp add: InvSubBytes_def upt_0_4 put_column_def column_word_def InvsubWord_def byte_pack Let_def)

lemma upt_small: "[0..<0] = []" "[0..<1] = [0]" "[0..<2] = [0, 1]" "[0..<3] = [0, 1, 2]"
  by (simp_all add: upt_rec)

lemma ShiftRows_Grid:
  "ShiftRows (Grid (Row a0 a1 a2 a3) (Row b0 b1 b2 b3) (Row c0 c1 c2 c3) (Row d0 d1 d2 d3)) =
     Grid (Row a0 a1 a2 a3) (Row b1 b2 b3 b0) (Row c2 c3 c0 c1) (Row d3 d0 d1 d2)"
  by (simp add: ShiftRows_def ShiftRows_once_def upt_0_4 upt_small byte_pack Let_def)

lemma InvShiftRows_Grid:
  "InvShiftRows (Grid (Row a0 a1 a2 a3) (Row b0 b1 b2 b3) (Row c0 c1 c2 c3) (Row d0 d1 d2 d3)) =
     Grid (Row a0 a1 a2 a3) (Row b3 b0 b1 b2) (Row c2 c3 c0 c1) (Row d1 d2 d3 d0)"
  by (simp add: InvShiftRows_def InvShiftRows_once_def upt_0_4 upt_small byte_pack Let_def)

lemma MixColumns_Grid:
  "MixColumns 4 (Grid (Row a0 a1 a2 a3) (Row b0 b1 b2 b3) (Row c0 c1 c2 c3) (Row d0 d1 d2 d3)) =
     Grid (Row (mixc a0 b0 c0 d0) (mixc a1 b1 c1 d1) (mixc a2 b2 c2 d2) (mixc a3 b3 c3 d3))
          (Row (mixc b0 c0 d0 a0) (mixc b1 c1 d1 a1) (mixc b2 c2 d2 a2) (mixc b3 c3 d3 a3))
          (Row (mixc c0 d0 a0 b0) (mixc c1 d1 a1 b1) (mixc c2 d2 a2 b2) (mixc c3 d3 a3 b3))
          (Row (mixc d0 a0 b0 c0) (mixc d1 a1 b1 c1) (mixc d2 a2 b2 c2) (mixc d3 a3 b3 c3))"
  by (simp add: MixColumns_def MixColumns_col_def upt_0_4 mixc_def Let_def ac_simps)

lemma InvMixColumns_Grid:
  "InvMixColumns 4 (Grid (Row a0 a1 a2 a3) (Row b0 b1 b2 b3) (Row c0 c1 c2 c3) (Row d0 d1 d2 d3)) =
     Grid (Row (imixc a0 b0 c0 d0) (imixc a1 b1 c1 d1) (imixc a2 b2 c2 d2) (imixc a3 b3 c3 d3))
          (Row (imixc b0 c0 d0 a0) (imixc b1 c1 d1 a1) (imixc b2 c2 d2 a2) (imixc b3 c3 d3 a3))
          (Row (imixc c0 d0 a0 b0) (imixc c1 d1 a1 b1) (imixc c2 d2 a2 b2) (imixc c3 d3 a3 b3))
          (Row (imixc d0 a0 b0 c0) (imixc d1 a1 b1 c1) (imixc d2 a2 b2 c2) (imixc d3 a3 b3 c3))"
  by (simp add: InvMixColumns_def InvMixColumns_col_def upt_0_4 imixc_def Let_def ac_simps)

lemma AddRoundKey_eq:
  assumes "0 \<le> index" and "index + 3 < int (length ws)"
  shows "AddRoundKey st ws index =
           Inr (xor_cols st (ws ! nat index) (ws ! nat (index + 1)) (ws ! nat (index + 2))
                  (ws ! nat (index + 3)))"
proof -
  obtain a0 a1 a2 a3 b0 b1 b2 b3 c0 c1 c2 c3 d0 d1 d2 d3 where
    st: "st = Grid (Row a0 a1 a2 a3) (Row b0 b1 b2 b3) (Row c0 c1 c2 c3) (Row d0 d1 d2 d3)"
    by (metis grid.exhaust row.exhaust)
  show ?thesis using assms unfolding st
    by (simp add: AddRoundKey_def AddRoundKey_col_def upt_0_4 vec_at_def put_column_def
        column_word_def byte_pack byte_xor Let_def add.commute)
qed

lemma xor_cols_twice: "xor_cols (xor_cols st k0 k1 k2 k3) k0 k1 k2 k3 = st"
proof -
  obtain a0 a1 a2 a3 b0 b1 b2 b3 c0 c1 c2 c3 d0 d1 d2 d3 where
    st: "st = Grid (Row a0 a1 a2 a3) (Row b0 b1 b2 b3) (Row c0 c1 c2 c3) (Row d0 d1 d2 d3)"
    by (metis grid.exhaust row.exhaust)
  show ?thesis unfolding st by (simp add: xor.assoc)
qed


lemma inv_mix_same:
  "ffMultiply 0x0e (ffMultiply 0x02 s) XOR ffMultiply 0x0b s XOR ffMultiply 0x0d s XOR
   ffMultiply 0x09 (ffMultiply 0x03 s) = s"
  by (rule u8_linear_eq [where g = "\<lambda>s. s" and
        f = "\<lambda>s. ffMultiply 0x0e (ffMultiply 0x02 s) XOR ffMultiply 0x0b s XOR ffMultiply 0x0d s XOR
                 ffMultiply 0x09 (ffMultiply 0x03 s)"])
     (simp_all add: ffMultiply_xor_right ac_simps, simp_all add: ff_eval)

lemma inv_mix_next1:
  "ffMultiply 0x0e (ffMultiply 0x03 s) XOR ffMultiply 0x0b (ffMultiply 0x02 s) XOR
   ffMultiply 0x0d s XOR ffMultiply 0x09 s = 0"
  by (rule u8_linear_eq [where g = "\<lambda>s. 0" and
        f = "\<lambda>s. ffMultiply 0x0e (ffMultiply 0x03 s) XOR ffMultiply 0x0b (ffMultiply 0x02 s) XOR
                 ffMultiply 0x0d s XOR ffMultiply 0x09 s"])
     (simp_all add: ffMultiply_xor_right ac_simps, simp_all add: ff_eval)

lemma inv_mix_next2:
  "ffMultiply 0x0e s XOR ffMultiply 0x0b (ffMultiply 0x03 s) XOR
   ffMultiply 0x0d (ffMultiply 0x02 s) XOR ffMultiply 0x09 s = 0"
  by (rule u8_linear_eq [where g = "\<lambda>s. 0" and
        f = "\<lambda>s. ffMultiply 0x0e s XOR ffMultiply 0x0b (ffMultiply 0x03 s) XOR
                 ffMultiply 0x0d (ffMultiply 0x02 s) XOR ffMultiply 0x09 s"])
     (simp_all add: ffMultiply_xor_right ac_simps, simp_all add: ff_eval)

lemma inv_mix_next3:
  "ffMultiply 0x0e s XOR ffMultiply 0x0b s XOR ffMultiply 0x0d (ffMultiply 0x03 s) XOR
   ffMultiply 0x09 (ffMultiply 0x02 s) = 0"
  by (rule u8_linear_eq [where g = "\<lambda>s. 0" and
        f = "\<lambda>s. ffMultiply 0x0e s XOR ffMultiply 0x0b s XOR ffMultiply 0x0d (ffMultiply 0x03 s) XOR
                 ffMultiply 0x09 (ffMultiply 0x02 s)"])
     (simp_all add: ffMultiply_xor_right ac_simps, simp_all add: ff_eval)

lemma imixc_mixc:
  "imixc (mixc s0 s1 s2 s3) (mixc s1 s2 s3 s0) (mixc s2 s3 s0 s1) (mixc s3 s0 s1 s2) = s0"
proof -
  have "imixc (mixc s0 s1 s2 s3) (mixc s1 s2 s3 s0) (mixc s2 s3 s0 s1) (mixc s3 s0 s1 s2) =
        (ffMultiply 0x0e (ffMultiply 0x02 s0) XOR ffMultiply 0x0b s0 XOR ffMultiply 0x0d s0 XOR
           ffMultiply 0x09 (ffMultiply 0x03 s0)) XOR
        (ffMultiply 0x0e (ffMultiply 0x03 s1) XOR ffMultiply 0x0b (ffMultiply 0x02 s1) XOR
           ffMultiply 0x0d s1 XOR ffMultiply 0x09 s1) XOR
        (ffMultiply 0x0e s2 XOR ffMultiply 0x0b (ffMultiply 0x03 s2) XOR
           ffMultiply 0x0d (ffMultiply 0x02 s2) XOR ffMultiply 0x09 s2) XOR
        (ffMultiply 0x0e s3 XOR ffMultiply 0x0b s3 XOR ffMultiply 0x0d (ffMultiply 0x03 s3) XOR
           ffMultiply 0x09 (ffMultiply 0x02 s3))"
    by (simp add: imixc_def mixc_def ffMultiply_xor_right ac_simps)
  also have "\<dots> = s0"
    by (simp only: inv_mix_same inv_mix_next1 inv_mix_next2 inv_mix_next3) simp
  finally show ?thesis .
qed


section \<open>The substitution tables are inverse to each other\<close>

lemma u8_all:
  assumes "list_all (\<lambda>n. P (word_of_nat n :: u8)) [0..<256]"
  shows "P b"
proof -
  have "unat b < 256" using unsigned_less [of b] by simp
  moreover from assms have "\<forall>n<256. P (word_of_nat n)"
    by (simp add: list_all_iff)
  ultimately have "P (word_of_nat (unat b))" by blast
  then show ?thesis by simp
qed

lemma InvsBoxSub_sBoxSub: "InvsBoxSub (sBoxSub b) = b"
  by (rule u8_all) (simp add: upt_rec sBoxSub_def InvsBoxSub_def SBox_def InvSBox_def)

section \<open>Inverse transforms\<close>

lemma grid_cases:
  obtains a0 a1 a2 a3 b0 b1 b2 b3 c0 c1 c2 c3 d0 d1 d2 d3 where
    "S = Grid (Row a0 a1 a2 a3) (Row b0 b1 b2 b3) (Row c0 c1 c2 c3) (Row d0 d1 d2 d3)"
  by (metis grid.exhaust row.exhaust)

lemma InvShiftRows_ShiftRows: "InvShiftRows (ShiftRows S) = S"
  by (cases S rule: grid_cases) (simp add: ShiftRows_Grid InvShiftRows_Grid)

lemma InvSubBytes_SubBytes: "InvSubBytes (SubBytes S) = S"
  by (cases S rule: grid_cases) (simp add: SubBytes_Grid InvSubBytes_Grid InvsBoxSub_sBoxSub)

lemma InvMixColumns_MixColumns: "InvMixColumns 4 (MixColumns 4 S) = S"
  by (cases S rule: grid_cases) (simp add: MixColumns_Grid InvMixColumns_Grid imixc_mixc)

text \<open>
  C4. On every State each inverse transform undoes its forward transform: \<open>InvShiftRows\<close>
  after \<open>ShiftRows\<close>, \<open>InvSubBytes\<close> after \<open>SubBytes\<close>, and \<open>InvMixColumns\<close> after
  \<open>MixColumns\<close> (both over the four columns that \<open>Nb\<close> counts) give the State back.
\<close>

theorem inverse_transforms:
  "InvShiftRows (ShiftRows S) = S \<and>
   InvSubBytes (SubBytes S) = S \<and>
   InvMixColumns 4 (MixColumns 4 S) = S"
  by (simp add: InvShiftRows_ShiftRows InvSubBytes_SubBytes InvMixColumns_MixColumns)


section \<open>Decipher undoes Cipher\<close>

lemma AddRoundKey_undo:
  assumes "0 \<le> index" and "index + 3 < int (length ws)"
  shows "\<exists>st'. AddRoundKey st ws index = Inr st' \<and> AddRoundKey st' ws index = Inr st"
  using assms by (simp add: AddRoundKey_eq xor_cols_twice)

lemma Cipher_loop_state [simp]: "Cipher_loop i (this\<lparr>state := s\<rparr>) x = Cipher_loop i this x"
proof (induction i this x rule: Cipher_loop.induct)
  case (1 i this st index)
  show ?case
    by (subst (1 2) Cipher_loop.simps) (simp add: 1 ebind_def split: sum.splits)
qed

lemma Decipher_loop_state [simp]: "Decipher_loop i (this\<lparr>state := s\<rparr>) x = Decipher_loop i this x"
proof (induction i this x rule: Decipher_loop.induct)
  case (1 i this st index)
  show ?case
    by (subst (1 2) Decipher_loop.simps) (simp add: 1 ebind_def split: sum.splits)
qed

lemma loops_inverse:
  assumes nb: "Nb this = 4" and len: "4 * (Nr this + 1) \<le> int (length (w this))"
    and i0: "0 \<le> i" and n: "n = nat (Nr this - 1 - i)" and i1: "i \<le> Nr this - 1"
  shows "\<exists>st'. Cipher_loop i this (st, 4 * (i + 1)) = Inr (st', 4 * Nr this) \<and>
           Decipher_loop 0 this (ShiftRows (SubBytes st'), 4 * (Nr this - 1)) =
           Decipher_loop (Nr this - 1 - i) this (ShiftRows (SubBytes st), 4 * i)"
  using i0 n i1
proof (induction n arbitrary: i st)
  case 0
  then have i: "i = Nr this - 1" by simp
  show ?case
    by (subst Cipher_loop.simps) (simp add: i)
next
  case (Suc n)
  then have lt: "i < Nr this - 1" by simp
  let ?m = "MixColumns 4 (ShiftRows (SubBytes st))"
  have rng: "0 \<le> 4 * (i + 1)" "4 * (i + 1) + 3 < int (length (w this))"
    using Suc.prems lt len by simp_all
  obtain st1 where a1: "AddRoundKey ?m (w this) (4 * (i + 1)) = Inr st1"
    and a2: "AddRoundKey st1 (w this) (4 * (i + 1)) = Inr ?m"
    using AddRoundKey_undo [OF rng] by blast
  have "\<exists>st'. Cipher_loop (i + 1) this (st1, 4 * (i + 1 + 1)) = Inr (st', 4 * Nr this) \<and>
           Decipher_loop 0 this (ShiftRows (SubBytes st'), 4 * (Nr this - 1)) =
           Decipher_loop (Nr this - 1 - (i + 1)) this (ShiftRows (SubBytes st1), 4 * (i + 1))"
    using Suc.prems lt by (intro Suc.IH) simp_all
  then obtain st' where c: "Cipher_loop (i + 1) this (st1, 4 * (i + 1 + 1)) = Inr (st', 4 * Nr this)"
    and d: "Decipher_loop 0 this (ShiftRows (SubBytes st'), 4 * (Nr this - 1)) =
           Decipher_loop (Nr this - 1 - (i + 1)) this (ShiftRows (SubBytes st1), 4 * (i + 1))"
    by blast
  have c': "Cipher_loop i this (st, 4 * (i + 1)) = Inr (st', 4 * Nr this)"
    using c a1 lt by (subst Cipher_loop.simps) (simp add: nb algebra_simps)
  have "Decipher_loop (Nr this - 1 - (i + 1)) this (ShiftRows (SubBytes st1), 4 * (i + 1)) =
        Decipher_loop (Nr this - 1 - i) this (ShiftRows (SubBytes st), 4 * i)"
    using Suc.prems a2
    by (subst Decipher_loop.simps)
       (simp add: nb InvShiftRows_ShiftRows InvSubBytes_SubBytes InvMixColumns_MixColumns algebra_simps)
  with c' d show ?case by simp
qed

lemma Decipher_Cipher:
  assumes nb: "Nb this = 4" and nr: "1 \<le> Nr this"
    and len: "4 * (Nr this + 1) \<le> int (length (w this))"
  shows "\<exists>c. Cipher this = Inr c \<and> Decipher c = Inr this"
proof -
  have r0: "0 \<le> (0::int)" "0 + 3 < int (length (w this))" using nr len by simp_all
  obtain st0 where a0: "AddRoundKey (state this) (w this) 0 = Inr st0"
    and b0: "AddRoundKey st0 (w this) 0 = Inr (state this)"
    using AddRoundKey_undo [OF r0] by blast
  obtain st1 where c1: "Cipher_loop 0 this (st0, 4 * (0 + 1)) = Inr (st1, 4 * Nr this)"
    and d1: "Decipher_loop 0 this (ShiftRows (SubBytes st1), 4 * (Nr this - 1)) =
             Decipher_loop (Nr this - 1 - 0) this (ShiftRows (SubBytes st0), 4 * 0)"
    using loops_inverse [OF nb len, of 0 "nat (Nr this - 1 - 0)" st0] nr by auto
  have rn: "0 \<le> 4 * Nr this" "4 * Nr this + 3 < int (length (w this))" using nr len by simp_all
  obtain st2 where a2: "AddRoundKey (ShiftRows (SubBytes st1)) (w this) (4 * Nr this) = Inr st2"
    and b2: "AddRoundKey st2 (w this) (4 * Nr this) = Inr (ShiftRows (SubBytes st1))"
    using AddRoundKey_undo [OF rn] by blast
  have c: "Cipher this = Inr (this\<lparr>state := st2\<rparr>)"
    using a0 c1 a2 by (simp add: Cipher_def)
  have e: "Decipher_loop (Nr this - 1) this (ShiftRows (SubBytes st0), 0) =
           Inr (ShiftRows (SubBytes st0), 0)"
    by (subst Decipher_loop.simps) simp
  have "Decipher (this\<lparr>state := st2\<rparr>) = Inr this"
    using b2 d1 e b0
    by (simp add: Decipher_def nb InvShiftRows_ShiftRows InvSubBytes_SubBytes algebra_simps)
  with c show ?thesis by simp
qed



section \<open>The order of the decryption rounds\<close>

lemma Decipher_loop_rounds:
  assumes "n = nat (Nr this - 1 - i)" and "0 \<le> i" and "i \<le> Nr this - 1"
  shows "Decipher_loop i this (st, Nr this * Nb this - 4 * (i + 1)) =
           ebind (for_each [Suc (nat i)..<nat (Nr this)] (Decipher_round this) st)
             (\<lambda>st'. Inr (st', Nr this * Nb this - 4 * Nr this))"
  using assms
proof (induction n arbitrary: i st)
  case 0
  then have i: "i = Nr this - 1" by simp
  have "Suc (nat (Nr this - 1)) = nat (Nr this)" using 0 by simp
  then show ?case
    by (subst Decipher_loop.simps) (simp add: i)
next
  case (Suc n)
  then have lt: "i < Nr this - 1" by simp
  define ix where "ix = Nr this * Nb this - 4 * (i + 1)"
  define arg where "arg = AddRoundKey (InvSubBytes (InvShiftRows st)) (w this) ix"
  have l: "[Suc (nat i)..<nat (Nr this)] = Suc (nat i) # [Suc (nat (i + 1))..<nat (Nr this)]"
    using Suc.prems lt by (simp add: upt_conv_Cons nat_add_distrib)
  have ih: "Decipher_loop (i + 1) this (st, ix - 4) =
           ebind (for_each [Suc (nat (i + 1))..<nat (Nr this)] (Decipher_round this) st)
             (\<lambda>st'. Inr (st', Nr this * Nb this - 4 * Nr this))" for st
    using Suc.IH [of "i + 1" st] Suc.prems lt by (simp add: ix_def algebra_simps)
  have step: "Decipher_loop i this (st, ix) =
           ebind arg (\<lambda>st'. Decipher_loop (i + 1) this (InvMixColumns (Nb this) st', ix - 4))"
    using lt by (subst Decipher_loop.simps) (simp add: arg_def)
  have round: "Decipher_round this (Suc (nat i)) st =
           ebind arg (\<lambda>st'. Inr (InvMixColumns (Nb this) st'))"
    using Suc.prems by (simp add: Decipher_round_def arg_def ix_def algebra_simps)
  have "Decipher_loop i this (st, ix) =
           ebind (for_each [Suc (nat i)..<nat (Nr this)] (Decipher_round this) st)
             (\<lambda>st'. Inr (st', Nr this * Nb this - 4 * Nr this))"
    unfolding step l by (cases arg) (simp_all add: round ih)
  then show ?case by (simp add: ix_def)
qed

text \<open>
  C7. On an object with \<open>Nb = 4\<close> and at least one round, \<open>Decipher\<close> is the sequence the
  specification describes: \<open>AddRoundKey\<close> at offset \<open>Nr * Nb\<close>; for the rounds 1 to \<open>Nr - 1\<close>
  \<open>InvShiftRows\<close>, \<open>InvSubBytes\<close>, \<open>AddRoundKey\<close> four words lower each round, \<open>InvMixColumns\<close>;
  then \<open>InvShiftRows\<close>, \<open>InvSubBytes\<close> and \<open>AddRoundKey\<close> at offset 0, without \<open>InvMixColumns\<close>.
\<close>

theorem Decipher_order:
  assumes "Nb this = 4" and "1 \<le> Nr this"
  shows "Decipher this = Decipher_rounds this"
proof -
  have "Decipher_loop 0 this (st, Nr this * Nb this - 4) =
          ebind (for_each [1..<nat (Nr this)] (Decipher_round this) st) (\<lambda>st'. Inr (st', 0))" for st
    using Decipher_loop_rounds [of "nat (Nr this - 1 - 0)" this 0 st] assms by simp
  then show ?thesis
    by (simp add: Decipher_def Decipher_rounds_def ebind_def split: sum.splits)
qed



section \<open>The round constants\<close>

lemma clmul_0 [simp]: "clmul 0 b = 0"
  by (simp add: clmul.simps)

lemma clmul_double: "clmul (2 * q) b = 2 * clmul q b"
  by (cases "q = 0") (simp_all add: clmul.simps [of "2 * q"])

lemma clmul_double_1: "clmul (Suc (2 * q)) b = b XOR 2 * clmul q b"
  by (simp add: clmul.simps [of "Suc (2 * q)"])

lemma unat_xtime:
  "unat (xtime r) = (if bit r 7 then (2 * unat r) XOR field_modulus else 2 * unat r)"
  by (rule u8_all) (simp add: upt_rec xtime_def field_modulus_def)


lemma double_xor: "2 * (a XOR b) = 2 * a XOR 2 * (b :: nat)"
  using push_bit_xor [of 1 a b] by (simp add: push_bit_eq_mult mult.commute)

lemma xpow_mod_0: "xpow_mod 0 1"
  by (simp add: xpow_mod_def)

lemma xpow_mod_Suc:
  assumes "xpow_mod i r"
  shows "xpow_mod (Suc i) (xtime r)"
proof -
  from assms obtain q where q: "q < 2 ^ i" and e: "2 ^ i = clmul q field_modulus XOR unat r"
    by (auto simp: xpow_mod_def)
  have d: "(2::nat) ^ Suc i = 2 * clmul q field_modulus XOR 2 * unat r"
    using e by (simp add: double_xor)
  show ?thesis
  proof (cases "bit r 7")
    case True
    then have t: "2 * unat r = unat (xtime r) XOR field_modulus"
      by (simp add: unat_xtime xor.assoc)
    have "(2::nat) ^ Suc i = clmul (Suc (2 * q)) field_modulus XOR unat (xtime r)"
      by (simp only: d t clmul_double_1 xor.assoc xor.commute xor.left_commute)
    moreover have "Suc (2 * q) < 2 ^ Suc i" using q by simp
    ultimately show ?thesis unfolding xpow_mod_def by blast
  next
    case False
    then have "(2::nat) ^ Suc i = clmul (2 * q) field_modulus XOR unat (xtime r)"
      using d by (simp add: unat_xtime clmul_double)
    moreover have "2 * q < 2 ^ Suc i" using q by simp
    ultimately show ?thesis unfolding xpow_mod_def by blast
  qed
qed

lemma xpow_mod_funpow: "xpow_mod i ((xtime ^^ i) 1)"
  by (induction i) (simp_all add: xpow_mod_0 xpow_mod_Suc)

lemma initRcon_loop_eq:
  assumes "n = nat (nr - i)"
  shows "initRcon_loop i nr rv rcon =
           rcon @ map (\<lambda>j. push_bit 24 (ucast ((xtime ^^ j) rv))) [0..<n]"
  using assms
proof (induction n arbitrary: i rv rcon)
  case 0
  then show ?case by (subst initRcon_loop.simps) simp
next
  case (Suc n)
  then have lt: "i < nr" and n: "n = nat (nr - (i + 1))" by simp_all
  have "map (\<lambda>j. push_bit 24 (ucast ((xtime ^^ j) rv)) :: u32) [0..<Suc n] =
        push_bit 24 (ucast rv) # map (\<lambda>j. push_bit 24 (ucast ((xtime ^^ j) (xtime rv)))) [0..<n]"
    by (simp add: upt_conv_Cons map_Suc_upt [symmetric] funpow_swap1 del: upt_Suc)
  then show ?case
    using lt Suc.IH [OF n] by (subst initRcon_loop.simps) (simp add: Let_def)
qed

text \<open>
  C5. Starting from the empty vector, \<open>initRcon\<close> leaves \<open>Nr\<close> words; the \<open>i\<close>-th is a byte
  \<open>r\<close> in the top eight bits, where \<open>r\<close> is \<open>x^i\<close> reduced modulo the field polynomial
  (\<open>x^i = q m + r\<close> for some polynomial \<open>q\<close>); and each word is the top byte of the
  one before, doubled by \<open>xtime\<close> and put back into the top byte.
\<close>

theorem Rcon_values:
  assumes "Rcon this = []"
  shows "length (Rcon (initRcon nr this)) = nat nr \<and>
         (\<forall>i<nat nr. \<exists>r. xpow_mod i r \<and> Rcon (initRcon nr this) ! i = push_bit 24 (ucast r)) \<and>
         (\<forall>i. Suc i < nat nr \<longrightarrow>
            Rcon (initRcon nr this) ! Suc i =
              push_bit 24 (ucast (xtime (byte0 (Rcon (initRcon nr this) ! i)))))"
proof -
  have r: "Rcon (initRcon nr this) = map (\<lambda>j. push_bit 24 (ucast ((xtime ^^ j) 1))) [0..<nat nr]"
    using assms initRcon_loop_eq [of "nat nr" nr 0 1 "[]"] by (simp add: initRcon_def)
  have b: "byte0 (push_bit 24 (ucast x)) = x" for x :: u8
    using byte0_pack [of x 0 0 0] by (simp add: pack_def)
  show ?thesis
    unfolding r using xpow_mod_funpow by (auto simp: b)
qed



section \<open>Key expansion\<close>

lemma vec_at_in [simp]: "0 \<le> n \<Longrightarrow> n < int (length xs) \<Longrightarrow> vec_at xs n = Inr (xs ! nat n)"
  by (simp add: vec_at_def)

lemma vec_index_in [simp]: "0 \<le> n \<Longrightarrow> n < int (length xs) \<Longrightarrow> vec_index xs n = Inr (xs ! nat n)"
  by (simp add: vec_index_def)

lemma KeyExpansion_load_eq:
  assumes "n = nat (nk - i)" and "0 \<le> i" and "4 * nk \<le> int (length k)"
  shows "KeyExpansion_load i nk k ws =
           Inr (ws @ map (\<lambda>j. pack (k ! (4 * j)) (k ! (4 * j + 1)) (k ! (4 * j + 2)) (k ! (4 * j + 3)))
                      [nat i..<nat nk])"
  using assms
proof (induction n arbitrary: i ws)
  case 0
  then show ?case by (subst KeyExpansion_load.simps) simp
next
  case (Suc n)
  then have lt: "i < nk" and n: "n = nat (nk - (i + 1))" by simp_all
  have l: "[nat i..<nat nk] = nat i # [nat (i + 1)..<nat nk]"
    using Suc.prems lt by (simp add: upt_conv_Cons nat_add_distrib)
  have ix: "nat (4 * i) = 4 * nat i" "nat (4 * i + 1) = 4 * nat i + 1"
    "nat (4 * i + 2) = 4 * nat i + 2" "nat (4 * i + 3) = 4 * nat i + 3"
    using Suc.prems by (simp_all add: nat_add_distrib nat_mult_distrib)
  have ih: "\<And>ws. KeyExpansion_load (i + 1) nk k ws =
           Inr (ws @ map (\<lambda>j. pack (k ! (4 * j)) (k ! (4 * j + 1)) (k ! (4 * j + 2)) (k ! (4 * j + 3)))
                      [nat (i + 1)..<nat nk])"
    using Suc.prems by (intro Suc.IH [OF n]) simp_all
  show ?case
    using Suc.prems lt
    by (subst KeyExpansion_load.simps) (simp add: ih l ix)
qed

lemma KeyExpansion_expand_step:
  assumes "i < bound" and "0 < nk" and "nk \<le> i" and "int (length ws) = i"
    and "bound \<le> nk * (int (length rcon) + 1)"
  shows "KeyExpansion_expand i bound nk rcon ws =
           KeyExpansion_expand (i + 1) bound nk rcon
             (ws @ [ws ! nat (i - nk) XOR schedule_temp nk rcon (ws ! nat (i - 1)) i])"
proof -
  have "0 < i div nk" using assms pos_imp_zdiv_pos_iff [of nk i] by simp
  then have d1: "1 \<le> i div nk" by simp
  have lt: "i < nk * (int (length rcon) + 1)" using assms by simp
  have "0 \<le> i mod nk" using assms(2) by simp
  moreover have "nk * (i div nk) + i mod nk = i" by simp
  ultimately have "nk * (i div nk) \<le> i" by linarith
  with lt have "nk * (i div nk) < nk * (int (length rcon) + 1)" by linarith
  then have "i div nk < int (length rcon) + 1"
    using assms(2) mult_less_cancel_left_pos [of nk "i div nk" "int (length rcon) + 1"] by simp
  with d1 have r: "0 \<le> i div nk - 1" "i div nk - 1 < int (length rcon)" by simp_all
  show ?thesis
    using assms r
    by (subst KeyExpansion_expand.simps) (simp add: schedule_temp_def)
qed

lemma KeyExpansion_expand_eq:
  assumes "n = nat (bound - i)" and "0 < nk" and "nk \<le> i" and "int (length ws) = i"
    and "bound \<le> nk * (int (length rcon) + 1)"
  shows "\<exists>ws'. KeyExpansion_expand i bound nk rcon ws = Inr ws' \<and>
           int (length ws') = max i bound \<and> take (length ws) ws' = ws \<and>
           (\<forall>j. i \<le> j \<and> j < bound \<longrightarrow>
              ws' ! nat j = ws' ! nat (j - nk) XOR schedule_temp nk rcon (ws' ! nat (j - 1)) j)"
  using assms
proof (induction n arbitrary: i ws)
  case 0
  then show ?case by (subst KeyExpansion_expand.simps) auto
next
  case (Suc n)
  then have lt: "i < bound" and n: "n = nat (bound - (i + 1))" by simp_all
  let ?x = "ws ! nat (i - nk) XOR schedule_temp nk rcon (ws ! nat (i - 1)) i"
  let ?ws1 = "ws @ [?x]"
  have step: "KeyExpansion_expand i bound nk rcon ws = KeyExpansion_expand (i + 1) bound nk rcon ?ws1"
    using lt Suc.prems by (intro KeyExpansion_expand_step) simp_all
  have "\<exists>ws'. KeyExpansion_expand (i + 1) bound nk rcon ?ws1 = Inr ws' \<and>
           int (length ws') = max (i + 1) bound \<and> take (length ?ws1) ws' = ?ws1 \<and>
           (\<forall>j. i + 1 \<le> j \<and> j < bound \<longrightarrow>
              ws' ! nat j = ws' ! nat (j - nk) XOR schedule_temp nk rcon (ws' ! nat (j - 1)) j)"
    using Suc.prems by (intro Suc.IH [OF n]) simp_all
  then obtain ws' where r: "KeyExpansion_expand (i + 1) bound nk rcon ?ws1 = Inr ws'"
    and len: "int (length ws') = max (i + 1) bound"
    and tk: "take (length ?ws1) ws' = ?ws1"
    and rest: "\<forall>j. i + 1 \<le> j \<and> j < bound \<longrightarrow>
              ws' ! nat j = ws' ! nat (j - nk) XOR schedule_temp nk rcon (ws' ! nat (j - 1)) j"
    by blast
  have nth1: "ws' ! m = ?ws1 ! m" if "m < length ?ws1" for m
  proof -
    have "take (length ?ws1) ws' ! m = ws' ! m" using that by (rule nth_take)
    then show ?thesis by (simp only: tk)
  qed
  have li: "length ws = nat i" using Suc.prems by simp
  have at_i: "ws' ! nat i = ?x"
    using nth1 [of "nat i"] li by (simp add: nth_append)
  have below: "ws' ! m = ws ! m" if "m < nat i" for m
    using nth1 [of m] that li by (simp add: nth_append)
  have "ws' ! nat i = ws' ! nat (i - nk) XOR schedule_temp nk rcon (ws' ! nat (i - 1)) i"
    using at_i below [of "nat (i - nk)"] below [of "nat (i - 1)"] Suc.prems by simp
  then have ati: "ws' ! nat i = ws' ! nat (i - nk) XOR schedule_temp nk rcon (ws' ! nat (i - 1)) i" .
  have all: "\<forall>j. i \<le> j \<and> j < bound \<longrightarrow>
              ws' ! nat j = ws' ! nat (j - nk) XOR schedule_temp nk rcon (ws' ! nat (j - 1)) j"
  proof (intro allI impI)
    fix j assume j: "i \<le> j \<and> j < bound"
    show "ws' ! nat j = ws' ! nat (j - nk) XOR schedule_temp nk rcon (ws' ! nat (j - 1)) j"
    proof (cases "j = i")
      case True
      then show ?thesis using ati by simp
    next
      case False
      then have "i + 1 \<le> j \<and> j < bound" using j by simp
      then show ?thesis using rest by blast
    qed
  qed
  have "take (length ws) ws' = ws"
  proof -
    have "take (length ws) (take (length ?ws1) ws') = take (length ws) ws'" by simp
    then show ?thesis by (simp only: tk) simp
  qed
  with step r len all lt show ?case by auto
qed


lemma KeyExpansion_eq:
  assumes nk: "0 < nk" and k: "4 * nk \<le> int (length k)"
    and b: "Nb this * (Nr this + 1) \<le> nk * (int (length (Rcon this)) + 1)"
    and nb: "nk \<le> Nb this * (Nr this + 1)"
  shows "\<exists>ks. KeyExpansion k [] nk this = Inr (this\<lparr>w := ks\<rparr>) \<and>
           int (length ks) = Nb this * (Nr this + 1) \<and>
           (\<forall>i. 0 \<le> i \<and> i < nk \<longrightarrow>
              ks ! nat i = pack (k ! nat (4 * i)) (k ! nat (4 * i + 1)) (k ! nat (4 * i + 2))
                             (k ! nat (4 * i + 3))) \<and>
           (\<forall>i. nk \<le> i \<and> i < Nb this * (Nr this + 1) \<longrightarrow>
              ks ! nat i = ks ! nat (i - nk) XOR schedule_temp nk (Rcon this) (ks ! nat (i - 1)) i)"
proof -
  define bound where "bound = Nb this * (Nr this + 1)"
  define ws1 where "ws1 = map (\<lambda>j. pack (k ! (4 * j)) (k ! (4 * j + 1)) (k ! (4 * j + 2)) (k ! (4 * j + 3)))
                      [0..<nat nk]"
  have load: "KeyExpansion_load 0 nk k [] = Inr ws1"
    using KeyExpansion_load_eq [of "nat (nk - 0)" nk 0 k "[]"] k by (simp add: ws1_def)
  have len1: "int (length ws1) = nk" using nk by (simp add: ws1_def)
  obtain ks where e: "KeyExpansion_expand nk bound nk (Rcon this) ws1 = Inr ks"
    and len: "int (length ks) = max nk bound"
    and tk: "take (length ws1) ks = ws1"
    and rest: "\<forall>j. nk \<le> j \<and> j < bound \<longrightarrow>
              ks ! nat j = ks ! nat (j - nk) XOR schedule_temp nk (Rcon this) (ks ! nat (j - 1)) j"
    using KeyExpansion_expand_eq [of "nat (bound - nk)" bound nk nk ws1 "Rcon this"] nk len1 b
    by (auto simp: bound_def)
  have first: "ks ! nat i = pack (k ! nat (4 * i)) (k ! nat (4 * i + 1)) (k ! nat (4 * i + 2))
                             (k ! nat (4 * i + 3))" if "0 \<le> i \<and> i < nk" for i
  proof -
    have lt: "nat i < length ws1" using that len1 by (simp add: nat_less_iff)
    then have "take (length ws1) ks ! nat i = ks ! nat i" by (rule nth_take)
    then have "ks ! nat i = ws1 ! nat i" by (simp only: tk)
    also have "\<dots> = pack (k ! (4 * nat i)) (k ! (4 * nat i + 1)) (k ! (4 * nat i + 2))
                             (k ! (4 * nat i + 3))"
      using lt by (simp add: ws1_def)
    finally show ?thesis
      using that by (simp add: nat_add_distrib nat_mult_distrib)
  qed
  have "KeyExpansion k [] nk this = Inr (this\<lparr>w := ks\<rparr>)"
    using load e by (simp add: KeyExpansion_def bound_def)
  moreover have "int (length ks) = bound" using len nb by (simp add: bound_def)
  ultimately show ?thesis using first rest unfolding bound_def by blast
qed

text \<open>
  C3. For a key of \<open>4 * Nk\<close> bytes with \<open>(Nk, Nr)\<close> one of (4, 10), (6, 12), (8, 14), and
  \<open>Nr\<close> round constants, \<open>KeyExpansion\<close> on the empty schedule returns and stores exactly
  \<open>Nb * (Nr + 1)\<close> words (44, 52 or 60). Word \<open>i < Nk\<close> is the key bytes \<open>4i .. 4i+3\<close> packed
  big-endian; word \<open>i \<ge> Nk\<close> is word \<open>i - Nk\<close> \<open>XOR\<close> the \<open>temp\<close> of the specification, computed
  from word \<open>i - 1\<close>.
\<close>

theorem KeyExpansion_schedule:
  assumes "(nk, Nr this) \<in> {(4, 10), (6, 12), (8, 14)}" and "Nb this = 4"
    and "int (length k) = 4 * nk" and "int (length (Rcon this)) = Nr this"
  shows "\<exists>ks. KeyExpansion k [] nk this = Inr (this\<lparr>w := ks\<rparr>) \<and>
           int (length ks) = Nb this * (Nr this + 1) \<and>
           length ks = (if nk = 4 then 44 else if nk = 6 then 52 else 60) \<and>
           (\<forall>i. 0 \<le> i \<and> i < nk \<longrightarrow>
              ks ! nat i = pack (k ! nat (4 * i)) (k ! nat (4 * i + 1)) (k ! nat (4 * i + 2))
                             (k ! nat (4 * i + 3))) \<and>
           (\<forall>i. nk \<le> i \<and> i < Nb this * (Nr this + 1) \<longrightarrow>
              ks ! nat i = ks ! nat (i - nk) XOR schedule_temp nk (Rcon this) (ks ! nat (i - 1)) i)"
proof -
  have h: "0 < nk" "4 * nk \<le> int (length k)"
    "Nb this * (Nr this + 1) \<le> nk * (int (length (Rcon this)) + 1)"
    "nk \<le> Nb this * (Nr this + 1)"
    using assms by auto
  from KeyExpansion_eq [OF h] obtain ks where
    ks: "KeyExpansion k [] nk this = Inr (this\<lparr>w := ks\<rparr>)"
      "int (length ks) = Nb this * (Nr this + 1)"
      "\<forall>i. 0 \<le> i \<and> i < nk \<longrightarrow>
              ks ! nat i = pack (k ! nat (4 * i)) (k ! nat (4 * i + 1)) (k ! nat (4 * i + 2))
                             (k ! nat (4 * i + 3))"
      "\<forall>i. nk \<le> i \<and> i < Nb this * (Nr this + 1) \<longrightarrow>
              ks ! nat i = ks ! nat (i - nk) XOR schedule_temp nk (Rcon this) (ks ! nat (i - 1)) i"
    by blast
  have "length ks = (if nk = 4 then 44 else if nk = 6 then 52 else 60)"
    using ks(2) assms(1,2) by auto
  with ks show ?thesis by blast
qed



section \<open>Construction from hexadecimal text\<close>

lemma isxdigit_not_space: "isxdigit c \<Longrightarrow> \<not> isspace c"
  by (auto simp: isxdigit_def isspace_def Let_def)

lemma isxdigit_not_sign: "isxdigit c \<Longrightarrow> c \<noteq> CHR ''-'' \<and> c \<noteq> CHR ''+''"
  by (auto simp: isxdigit_def Let_def)

lemma hex_value_range: "isxdigit c \<Longrightarrow> 0 \<le> hex_value c \<and> hex_value c < 16"
proof -
  assume "isxdigit c"
  moreover have "(of_char c :: int) = int (of_char c)" by (simp add: of_nat_of_char)
  ultimately show ?thesis
    by (auto simp: isxdigit_def hex_value_def Let_def)
qed

lemma stoi_2:
  assumes "isxdigit a" and "isxdigit b"
  shows "stoi [a, b] = Inr (hex_value a * 16 + hex_value b)"
  using assms hex_value_range [of a] hex_value_range [of b]
    isxdigit_not_space [of a] isxdigit_not_sign [of a]
  by (simp add: stoi_def strip_sign_def strip_0x_def Let_def)

lemma stoi_1:
  assumes "isxdigit a"
  shows "stoi [a] = Inr (hex_value a)"
  using assms hex_value_range [of a] isxdigit_not_space [of a] isxdigit_not_sign [of a]
  by (simp add: stoi_def strip_sign_def strip_0x_def Let_def)


lemma substr_drop_cases:
  assumes "i < length s"
  obtains a b where "substr s i 2 = [a, b]" "drop i s = a # b # drop (i + 2) s"
  | a where "substr s i 2 = [a]" "drop i s = [a]" "drop (i + 2) s = []"
proof -
  from assms obtain a r where d: "drop i s = a # r"
    by (cases "drop i s") simp_all
  have d2: "drop (i + 2) s = drop 2 (drop i s)" by (simp add: add.commute)
  show ?thesis
  proof (cases r)
    case Nil
    with d d2 show ?thesis by (intro that(2) [of a]) (simp_all add: substr_def)
  next
    case (Cons b r')
    with d d2 show ?thesis by (intro that(1) [of a b]) (simp_all add: substr_def)
  qed
qed

lemma initState_bytes_hex:
  assumes "\<forall>c\<in>set s. isxdigit c"
  shows "initState_bytes i s bytes = Inr (bytes @ map uint (hex_bytes (drop i s)))"
proof (induction "length s - i" arbitrary: i bytes rule: less_induct)
  case less
  show ?case
  proof (cases "i < length s")
    case False
    then show ?thesis by (subst initState_bytes.simps) simp
  next
    case True
    then show ?thesis
    proof (cases rule: substr_drop_cases)
      case (1 a b)
      then have "a \<in> set (drop i s)" "b \<in> set (drop i s)" by simp_all
      then have "isxdigit a" "isxdigit b" using assms by (auto dest: in_set_dropD)
      then have "initState_bytes i s bytes =
          initState_bytes (i + 2) s (bytes @ [uint (word_of_int (hex_value a * 16 + hex_value b) :: u8)])"
        using True 1 by (subst initState_bytes.simps) (simp add: stoi_2 Let_def)
      also have "\<dots> = Inr ((bytes @ [uint (word_of_int (hex_value a * 16 + hex_value b) :: u8)]) @
                        map uint (hex_bytes (drop (i + 2) s)))"
        using True by (intro less.hyps) simp
      finally show ?thesis using 1 by simp
    next
      case (2 a)
      then have "a \<in> set (drop i s)" by simp
      then have "isxdigit a" using assms by (auto dest: in_set_dropD)
      then have "initState_bytes i s bytes =
          initState_bytes (i + 2) s (bytes @ [uint (word_of_int (hex_value a) :: u8)])"
        using True 2 by (subst initState_bytes.simps) (simp add: stoi_1 Let_def)
      also have "\<dots> = Inr ((bytes @ [uint (word_of_int (hex_value a) :: u8)]) @
                        map uint (hex_bytes (drop (i + 2) s)))"
        using True by (intro less.hyps) simp
      finally show ?thesis using 2 by simp
    qed
  qed
qed

lemma initKey_bytes_hex:
  assumes "\<forall>c\<in>set s. isxdigit c"
  shows "initKey_bytes i s this = Inr (this\<lparr>key := key this @ hex_bytes (drop i s)\<rparr>)"
proof (induction "length s - i" arbitrary: i this rule: less_induct)
  case less
  show ?case
  proof (cases "i < length s")
    case False
    then show ?thesis by (subst initKey_bytes.simps) simp
  next
    case True
    then show ?thesis
    proof (cases rule: substr_drop_cases)
      case (1 a b)
      then have "a \<in> set (drop i s)" "b \<in> set (drop i s)" by simp_all
      then have "isxdigit a" "isxdigit b" using assms by (auto dest: in_set_dropD)
      then have "initKey_bytes i s this =
          initKey_bytes (i + 2) s (this\<lparr>key := key this @ [word_of_int (hex_value a * 16 + hex_value b)]\<rparr>)"
        using True 1 by (subst initKey_bytes.simps) (simp add: stoi_2 Let_def)
      also have "\<dots> = Inr ((this\<lparr>key := key this @ [word_of_int (hex_value a * 16 + hex_value b)]\<rparr>)
            \<lparr>key := key (this\<lparr>key := key this @ [word_of_int (hex_value a * 16 + hex_value b)]\<rparr>) @
               hex_bytes (drop (i + 2) s)\<rparr>)"
        using True by (intro less.hyps) simp
      finally show ?thesis using 1 by simp
    next
      case (2 a)
      then have "a \<in> set (drop i s)" by simp
      then have "isxdigit a" using assms by (auto dest: in_set_dropD)
      then have "initKey_bytes i s this =
          initKey_bytes (i + 2) s (this\<lparr>key := key this @ [word_of_int (hex_value a)]\<rparr>)"
        using True 2 by (subst initKey_bytes.simps) (simp add: stoi_1 Let_def)
      also have "\<dots> = Inr ((this\<lparr>key := key this @ [word_of_int (hex_value a)]\<rparr>)
            \<lparr>key := key (this\<lparr>key := key this @ [word_of_int (hex_value a)]\<rparr>) @
               hex_bytes (drop (i + 2) s)\<rparr>)"
        using True by (intro less.hyps) simp
      finally show ?thesis using 2 by simp
    qed
  qed
qed

lemma length_hex_bytes: "length (hex_bytes s) = (length s + 1) div 2"
  by (induction s rule: hex_bytes.induct) simp_all

lemma hex_bytes_take: "hex_bytes (take (2 * n) s) = take n (hex_bytes s)"
proof (induction s arbitrary: n rule: hex_bytes.induct)
  case (1 a b rest)
  then show ?case by (cases n) simp_all
next
  case (2 a)
  then show ?case by (cases n) simp_all
next
  case 3
  then show ?case by simp
qed

lemma initState_hex:
  assumes "\<forall>c\<in>set s. isxdigit c" and "31 \<le> length s"
  shows "initState s this = Inr (this\<lparr>state := block_grid (hex_bytes s)\<rparr>)"
proof -
  let ?bytes = "map uint (hex_bytes s)"
  have len: "16 \<le> length (hex_bytes s)" using assms(2) by (simp add: length_hex_bytes)
  have v: "vec_at ?bytes m = Inr (uint (hex_bytes s ! nat m))" if "0 \<le> m" "m < 16" for m
    using that len by (simp add: vec_at_def)
  obtain a0 a1 a2 a3 b0 b1 b2 b3 c0 c1 c2 c3 d0 d1 d2 d3 where
    st: "state this = Grid (Row a0 a1 a2 a3) (Row b0 b1 b2 b3) (Row c0 c1 c2 c3) (Row d0 d1 d2 d3)"
    by (rule grid_cases)
  show ?thesis
    by (simp add: initState_def initState_bytes_hex [OF assms(1)] upt_0_4 st block_grid_def v)
qed


lemma block_grid_take: "16 \<le> length bs \<Longrightarrow> block_grid (take 16 bs) = block_grid bs"
  by (simp add: block_grid_def)

text \<open>
  C10. For an input text of more than 32 characters, all of them hexadecimal digits,
  \<open>initState\<close> raises nothing and every byte after the sixteenth is ignored: the object it
  returns is the one it returns for the first 32 characters alone.
\<close>

theorem initState_ignores_tail:
  assumes "32 < length input" and "\<forall>c\<in>set input. isxdigit c"
  shows "\<exists>this'. initState input this = Inr this' \<and> initState (take 32 input) this = Inr this'"
proof -
  have t: "\<forall>c\<in>set (take 32 input). isxdigit c"
    using assms(2) by (auto dest: in_set_takeD)
  have "hex_bytes (take (2 * 16) input) = take 16 (hex_bytes input)" by (rule hex_bytes_take)
  moreover have "16 \<le> length (hex_bytes input)" using assms(1) by (simp add: length_hex_bytes)
  ultimately have "block_grid (hex_bytes (take 32 input)) = block_grid (hex_bytes input)"
    by (simp add: block_grid_take)
  moreover have "initState input this = Inr (this\<lparr>state := block_grid (hex_bytes input)\<rparr>)"
    using assms by (intro initState_hex) simp_all
  moreover have "initState (take 32 input) this =
      Inr (this\<lparr>state := block_grid (hex_bytes (take 32 input))\<rparr>)"
    using assms(1) t by (intro initState_hex) simp_all
  ultimately show ?thesis by simp
qed

lemma initKey_valid:
  assumes "\<forall>c\<in>set k. isxdigit c" and "length k div 2 \<in> {16, 24, 32}"
  shows "snd (initKey k encrypt this) =
           Inr (this\<lparr>Nk := int (length k div 2) div 4, Nr := int (length k div 2) div 4 + 6,
                     key := key this @ hex_bytes k\<rparr>)"
  using assms(2) by (auto simp: initKey_def Let_def initKey_bytes_hex [OF assms(1)])

lemma length_initRcon_loop: "length (initRcon_loop 0 nr 1 []) = nat nr"
  using initRcon_loop_eq [of "nat nr" nr 0 1 "[]"] by simp

lemma ctor_valid_eq:
  assumes i: "\<forall>c\<in>set input. isxdigit c" and il: "31 \<le> length input"
    and k: "\<forall>c\<in>set k. isxdigit c" and kl: "length k div 2 \<in> {16, 24, 32}"
    and nk: "nk = int (length k div 2) div 4"
  shows "snd (AES_ctor st0 nk0 nr0 input k encrypt) =
           KeyExpansion (hex_bytes k) [] nk
             \<lparr>state = block_grid (hex_bytes input), key = hex_bytes k, w = [],
              Rcon = initRcon_loop 0 (nk + 6) 1 [], Nk = nk, Nr = nk + 6, Nb = 4\<rparr>"
  by (simp add: ctor_result initState_hex [OF i il] initKey_valid [OF k kl] nk initRcon_def)

lemma ctor_valid:
  assumes i: "\<forall>c\<in>set input. isxdigit c" and il: "31 \<le> length input"
    and k: "\<forall>c\<in>set k. isxdigit c" and kl: "length k div 2 \<in> {16, 24, 32}"
  shows "\<exists>this. snd (AES_ctor st0 nk0 nr0 input k encrypt) = Inr this \<and>
           state this = block_grid (hex_bytes input) \<and> key this = hex_bytes k \<and>
           Nb this = 4 \<and> (Nk this, Nr this) \<in> {(4, 10), (6, 12), (8, 14)} \<and>
           int (length k div 2) = 4 * Nk this \<and>
           Rcon this = initRcon_loop 0 (Nr this) 1 [] \<and>
           int (length (w this)) = Nb this * (Nr this + 1)"
proof -
  define nk where "nk = int (length k div 2) div 4"
  define this2 where "this2 =
      \<lparr>state = block_grid (hex_bytes input), key = hex_bytes k, w = [],
        Rcon = initRcon_loop 0 (nk + 6) 1 [], Nk = nk, Nr = nk + 6, Nb = 4\<rparr>"
  have nk: "(nk, nk + 6) \<in> {(4, 10), (6, 12), (8, 14)}" "int (length k div 2) = 4 * nk"
    using kl by (auto simp: nk_def)
  have f: "Nb this2 = 4" "Nr this2 = nk + 6" "Nk this2 = nk" "key this2 = hex_bytes k"
    "state this2 = block_grid (hex_bytes input)" "w this2 = []"
    "Rcon this2 = initRcon_loop 0 (nk + 6) 1 []"
    by (simp_all add: this2_def)
  have "length k div 2 \<le> (length k + 1) div 2" by simp
  then have kb: "4 * nk \<le> int (length (hex_bytes k))"
    using nk(2) by (simp add: length_hex_bytes)
  have r: "snd (AES_ctor st0 nk0 nr0 input k encrypt) = KeyExpansion (hex_bytes k) [] nk this2"
    unfolding this2_def by (rule ctor_valid_eq [OF i il k kl nk_def])
  have h: "0 < nk" "Nb this2 * (Nr this2 + 1) \<le> nk * (int (length (Rcon this2)) + 1)"
    "nk \<le> Nb this2 * (Nr this2 + 1)"
    using nk(1) by (auto simp: f length_initRcon_loop)
  from KeyExpansion_eq [OF h(1) kb h(2,3)] obtain ks where
    "KeyExpansion (hex_bytes k) [] nk this2 = Inr (this2\<lparr>w := ks\<rparr>)"
    "int (length ks) = Nb this2 * (Nr this2 + 1)"
    by blast
  with r nk f show ?thesis by simp
qed

text \<open>
  C1. For every block text of 32 hexadecimal digits (16 bytes) and every key text of 32, 48
  or 64 hexadecimal digits (16, 24 or 32 bytes), whatever the flag, the constructor returns an
  object, \<open>Cipher\<close> on it returns, and \<open>Decipher\<close> on the result gives the constructed object
  back: the State is the plaintext block again, under the same key schedule.
\<close>

theorem Decipher_Cipher_roundtrip:
  assumes "length input = 32" and "\<forall>c\<in>set input. isxdigit c"
    and "length k \<in> {32, 48, 64}" and "\<forall>c\<in>set k. isxdigit c"
  shows "\<exists>this c. snd (AES_ctor st0 nk0 nr0 input k encrypt) = Inr this \<and>
           Cipher this = Inr c \<and> Decipher c = Inr this"
proof -
  have "31 \<le> length input" "length k div 2 \<in> {16, 24, 32}" using assms(1,3) by auto
  from ctor_valid [OF assms(2) this(1) assms(4) this(2), of st0 nk0 nr0 encrypt]
  obtain this where t: "snd (AES_ctor st0 nk0 nr0 input k encrypt) = Inr this"
    "Nb this = 4" "(Nk this, Nr this) \<in> {(4, 10), (6, 12), (8, 14)}"
    "int (length (w this)) = Nb this * (Nr this + 1)"
    by blast
  then have "1 \<le> Nr this" "4 * (Nr this + 1) \<le> int (length (w this))" by auto
  from Decipher_Cipher [OF t(2) this] t(1) show ?thesis by blast
qed

section \<open>The known-answer vector\<close>

lemma ebind_weak_cong: "m = m' \<Longrightarrow> ebind m f = ebind m' f"
  by simp

lemmas hex_eval = isxdigit_def hex_value_def block_grid_def Let_def

lemma c1_ctor:
  "snd (AES_ctor st0 nk0 nr0 ''00112233445566778899aabbccddeeff''
          ''000102030405060708090a0b0c0d0e0f'' encrypt) = Inr c1_object"
proof -
  have "snd (AES_ctor st0 nk0 nr0 ''00112233445566778899aabbccddeeff''
          ''000102030405060708090a0b0c0d0e0f'' encrypt) =
        KeyExpansion (hex_bytes ''000102030405060708090a0b0c0d0e0f'') [] 4
             \<lparr>state = block_grid (hex_bytes ''00112233445566778899aabbccddeeff''),
              key = hex_bytes ''000102030405060708090a0b0c0d0e0f'', w = [],
              Rcon = initRcon_loop 0 (4 + 6) 1 [], Nk = 4, Nr = 4 + 6, Nb = 4\<rparr>"
    by (rule ctor_valid_eq) (simp_all add: isxdigit_def)
  also have "\<dots> = Inr c1_object"
    by (simp add: c1_object_def hex_eval KeyExpansion_def KeyExpansion_load.simps
        KeyExpansion_expand.simps initRcon_loop.simps xtime_def vec_at_def vec_index_def
        subWord_def rotWord_def pack_def byte0_def byte1_def byte2_def byte3_def
        sBoxSub_def SBox_def cong: ebind_weak_cong)
  finally show ?thesis .
qed

lemmas cipher_eval =
  Cipher_def Cipher_loop.simps AddRoundKey_eq xor_cols.simps SubBytes_Grid ShiftRows_Grid
  MixColumns_Grid mixc_def ff_eval sBoxSub_def SBox_def byte0_def byte1_def byte2_def byte3_def

lemma c1_Cipher:
  "Cipher c1_object =
     Inr (c1_object\<lparr>state := Grid (Row 0x69 0x6a 0xd8 0x70) (Row 0xc4 0x7b 0xcd 0xb4) (Row 0xe0 0x04 0xb7 0xc5) (Row 0xd8 0x30 0x80 0x5a)\<rparr>)"
  by (simp add: c1_object_def cipher_eval cong: ebind_weak_cong)

text \<open>
  C2. From the key text \<open>000102030405060708090a0b0c0d0e0f\<close> and the block text
  \<open>00112233445566778899aabbccddeeff\<close> the constructor builds an object (key expansion
  included) on which \<open>Cipher\<close> returns, and the final State, written column by column as
  \<open>printState\<close> writes it, is \<open>69c4e0d86a7b0430d8cdb78070b4c55a\<close>.
\<close>

theorem known_answer_aes128:
  "\<exists>this c.
     snd (AES_ctor st0 nk0 nr0 ''00112233445566778899aabbccddeeff''
            ''000102030405060708090a0b0c0d0e0f'' encrypt) = Inr this \<and>
     Cipher this = Inr c \<and>
     printState (state c) = ''69c4e0d86a7b0430d8cdb78070b4c55a''"
proof -
  have "printState (state (c1_object\<lparr>state := Grid (Row 0x69 0x6a 0xd8 0x70) (Row 0xc4 0x7b 0xcd 0xb4) (Row 0xe0 0x04 0xb7 0xc5) (Row 0xd8 0x30 0x80 0x5a)\<rparr>)) = ''69c4e0d86a7b0430d8cdb78070b4c55a''"
    by (simp add: printState_def hex2_def upt_0_4)
  with c1_ctor c1_Cipher show ?thesis by blast
qed

section \<open>The theorems at the known-answer vector\<close>

lemma c1_fields:
  "Nb c1_object = 4" "Nr c1_object = 10" "Nk c1_object = 4" "length (w c1_object) = 44"
  "length (key c1_object) = 16" "length (Rcon c1_object) = 10"
  by (simp_all add: c1_object_def)

theorem Decipher_Cipher_roundtrip_witness:
  "length ''00112233445566778899aabbccddeeff'' = 32 \<and>
   list_all isxdigit ''00112233445566778899aabbccddeeff'' \<and>
   length ''000102030405060708090a0b0c0d0e0f'' \<in> {32, 48, 64} \<and>
   list_all isxdigit ''000102030405060708090a0b0c0d0e0f'' \<and>
   (\<exists>this c.
      snd (AES_ctor zero_grid 0 0 ''00112233445566778899aabbccddeeff''
             ''000102030405060708090a0b0c0d0e0f'' True) = Inr this \<and>
      Cipher this = Inr c \<and> Decipher c = Inr this)"
proof -
  have h: "length ''00112233445566778899aabbccddeeff'' = 32"
    "\<forall>c\<in>set ''00112233445566778899aabbccddeeff''. isxdigit c"
    "length ''000102030405060708090a0b0c0d0e0f'' \<in> {32, 48, 64}"
    "\<forall>c\<in>set ''000102030405060708090a0b0c0d0e0f''. isxdigit c"
    by (simp_all add: isxdigit_def)
  from Decipher_Cipher_roundtrip [OF h, of zero_grid 0 0 True] h show ?thesis
    unfolding list_all_iff by blast
qed

theorem KeyExpansion_schedule_witness:
  "(4, Nr (c1_object\<lparr>w := []\<rparr>)) \<in> {(4, 10), (6, 12), (8, 14)} \<and>
   Nb (c1_object\<lparr>w := []\<rparr>) = 4 \<and>
   int (length (key c1_object)) = 4 * 4 \<and>
   int (length (Rcon (c1_object\<lparr>w := []\<rparr>))) = Nr (c1_object\<lparr>w := []\<rparr>) \<and>
   (\<exists>ks. KeyExpansion (key c1_object) [] 4 (c1_object\<lparr>w := []\<rparr>) =
            Inr (c1_object\<lparr>w := [], w := ks\<rparr>) \<and>
         length ks = 44 \<and>
         ks ! 0 = pack (key c1_object ! 0) (key c1_object ! 1) (key c1_object ! 2) (key c1_object ! 3) \<and>
         ks ! 4 = ks ! 0 XOR schedule_temp 4 (Rcon c1_object) (ks ! 3) 4 \<and>
         ks ! 43 = ks ! 39 XOR schedule_temp 4 (Rcon c1_object) (ks ! 42) 43)"
proof -
  have h: "(4, Nr (c1_object\<lparr>w := []\<rparr>)) \<in> {(4, 10), (6, 12), (8, 14)}"
    "Nb (c1_object\<lparr>w := []\<rparr>) = 4"
    "int (length (key c1_object)) = 4 * 4"
    "int (length (Rcon (c1_object\<lparr>w := []\<rparr>))) = Nr (c1_object\<lparr>w := []\<rparr>)"
    by (simp_all add: c1_fields)
  from KeyExpansion_schedule [OF h] obtain ks where
    ks: "KeyExpansion (key c1_object) [] 4 (c1_object\<lparr>w := []\<rparr>) = Inr (c1_object\<lparr>w := [], w := ks\<rparr>)"
      "length ks = (if (4::int) = 4 then 44 else if (4::int) = 6 then 52 else 60)"
      "\<forall>i. 0 \<le> i \<and> i < 4 \<longrightarrow>
              ks ! nat i = pack (key c1_object ! nat (4 * i)) (key c1_object ! nat (4 * i + 1))
                             (key c1_object ! nat (4 * i + 2)) (key c1_object ! nat (4 * i + 3))"
      "\<forall>i. 4 \<le> i \<and> i < Nb (c1_object\<lparr>w := []\<rparr>) * (Nr (c1_object\<lparr>w := []\<rparr>) + 1) \<longrightarrow>
              ks ! nat i = ks ! nat (i - 4) XOR
                schedule_temp 4 (Rcon (c1_object\<lparr>w := []\<rparr>)) (ks ! nat (i - 1)) i"
    by blast
  have "ks ! 0 = pack (key c1_object ! 0) (key c1_object ! 1) (key c1_object ! 2) (key c1_object ! 3)"
    using ks(3) [rule_format, of 0] by simp
  moreover have "ks ! 4 = ks ! 0 XOR schedule_temp 4 (Rcon c1_object) (ks ! 3) 4"
    using ks(4) [rule_format, of 4] by (simp add: c1_fields)
  moreover have "ks ! 43 = ks ! 39 XOR schedule_temp 4 (Rcon c1_object) (ks ! 42) 43"
    using ks(4) [rule_format, of 43] by (simp add: c1_fields)
  ultimately show ?thesis using h ks(1,2) by auto
qed

theorem Rcon_values_witness:
  "Rcon (c1_object\<lparr>Rcon := []\<rparr>) = [] \<and>
   length (Rcon (initRcon 10 (c1_object\<lparr>Rcon := []\<rparr>))) = nat 10 \<and>
   (\<exists>r. xpow_mod 8 r \<and> Rcon (initRcon 10 (c1_object\<lparr>Rcon := []\<rparr>)) ! 8 = push_bit 24 (ucast r)) \<and>
   Rcon (initRcon 10 (c1_object\<lparr>Rcon := []\<rparr>)) ! Suc 8 =
     push_bit 24 (ucast (xtime (byte0 (Rcon (initRcon 10 (c1_object\<lparr>Rcon := []\<rparr>)) ! 8))))"
proof -
  have h: "Rcon (c1_object\<lparr>Rcon := []\<rparr>) = []" by simp
  note r = Rcon_values [OF h, of 10]
  have "\<exists>r. xpow_mod 8 r \<and>
          Rcon (initRcon 10 (c1_object\<lparr>Rcon := []\<rparr>)) ! 8 = push_bit 24 (ucast r)"
    using r [THEN conjunct2, THEN conjunct1, rule_format, of 8] by simp
  moreover have "Rcon (initRcon 10 (c1_object\<lparr>Rcon := []\<rparr>)) ! Suc 8 =
      push_bit 24 (ucast (xtime (byte0 (Rcon (initRcon 10 (c1_object\<lparr>Rcon := []\<rparr>)) ! 8))))"
    using r [THEN conjunct2, THEN conjunct2, rule_format, of 8] by simp
  ultimately show ?thesis using h r [THEN conjunct1] by simp
qed

theorem Decipher_order_witness:
  "Nb c1_object = 4 \<and> 1 \<le> Nr c1_object \<and> Decipher c1_object = Decipher_rounds c1_object"
proof -
  have h: "Nb c1_object = 4" "1 \<le> Nr c1_object" by (simp_all add: c1_fields)
  from Decipher_order [OF h] h show ?thesis by simp
qed

theorem initState_ignores_tail_witness:
  "32 < length ''00112233445566778899aabbccddeeff0123'' \<and>
   list_all isxdigit ''00112233445566778899aabbccddeeff0123'' \<and>
   (\<exists>this'. initState ''00112233445566778899aabbccddeeff0123'' c1_object = Inr this' \<and>
            initState (take 32 ''00112233445566778899aabbccddeeff0123'') c1_object = Inr this')"
proof -
  have h: "32 < length ''00112233445566778899aabbccddeeff0123''"
    "\<forall>c\<in>set ''00112233445566778899aabbccddeeff0123''. isxdigit c"
    by (simp_all add: isxdigit_def)
  from initState_ignores_tail [OF h, of c1_object] h show ?thesis
    unfolding list_all_iff by blast
qed

section \<open>A key of a length the constructor does not know\<close>

lemma initKey_default:
  assumes "length k div 2 \<notin> {16, 24, 32}"
  shows "snd (initKey k encrypt this) = Inr this"
  using assms by (auto simp: initKey_def Let_def)

text \<open>
  C6, as the code has it. For a key text whose length in bytes (half the text length) is not
  16, 24 or 32, \<open>initKey\<close> raises nothing: it returns before it reads a key byte, with the
  object as it was, so without a key, without \<open>Nk\<close> and \<open>Nr\<close> set and without a schedule.
  The code has no error for a key length.
\<close>

theorem initKey_unknown_length:
  assumes "length k div 2 \<notin> {16, 24, 32}"
  shows "snd (initKey k encrypt this) = Inr this"
  using assms by (rule initKey_default)

theorem initKey_unknown_length_witness:
  "length ''000102030405060708090a0b0c0d0e0f10111213'' div 2 \<notin> {16, 24, 32} \<and>
   snd (initKey ''000102030405060708090a0b0c0d0e0f10111213'' True c1_object) = Inr c1_object"
proof -
  have h: "length ''000102030405060708090a0b0c0d0e0f10111213'' div 2 \<notin> {16, 24, 32}" by simp
  from initKey_unknown_length [OF h] h show ?thesis by blast
qed

text \<open>
  The claim of the specification fails on a 20-byte key: with the members \<open>Nk = 0\<close> and
  \<open>Nr = -1\<close> before construction the constructor returns an object, with an empty key and
  an empty schedule, and with both members 0 it leaves by the \<open>out_of_range\<close> of
  \<open>w.at(i - 1)\<close> inside \<open>KeyExpansion\<close>.
\<close>

theorem invalid_key_counterexample:
  "snd (AES_ctor zero_grid 0 (- 1) ''00112233445566778899aabbccddeeff''
          ''000102030405060708090a0b0c0d0e0f10111213'' True) =
     Inr \<lparr>state = state c1_object, key = [], w = [], Rcon = [], Nk = 0, Nr = - 1, Nb = 4\<rparr> \<and>
   snd (AES_ctor zero_grid 0 0 ''00112233445566778899aabbccddeeff''
          ''000102030405060708090a0b0c0d0e0f10111213'' True) = Inl OutOfRange"
proof -
  have i: "\<forall>c\<in>set ''00112233445566778899aabbccddeeff''. isxdigit c"
    "31 \<le> length ''00112233445566778899aabbccddeeff''"
    by (simp_all add: isxdigit_def)
  have k: "length ''000102030405060708090a0b0c0d0e0f10111213'' div 2 \<notin> {16, 24, 32}" by simp
  show ?thesis
    by (simp add: ctor_result initState_hex [OF i] initKey_default [OF k] c1_object_def hex_eval
        initRcon_def initRcon_loop.simps KeyExpansion_def KeyExpansion_load.simps
        KeyExpansion_expand.simps vec_at_def)
qed

end
